theory Spec2Isabelle
  imports Complex_Main "HOL-Library.Extended_Nat" "HOL-Library.Multiset"
begin

section \<open>Vectors\<close>

text \<open>
  Positions and velocities are values of the \<^verbatim>\<open>vec3\<close> package: three JavaScript
  numbers. Numbers are modelled as real numbers (rounding, infinities and NaN are
  outside the model). Only the non-mutating operations that the pathfinder calls are
  embedded: \<^verbatim>\<open>minus\<close>, \<^verbatim>\<open>plus\<close>, \<^verbatim>\<open>scaled\<close>, \<^verbatim>\<open>dot\<close>, \<^verbatim>\<open>norm\<close>, \<^verbatim>\<open>offset\<close> and
  \<^verbatim>\<open>distanceTo\<close>.
\<close>

datatype vec3 = Vec3 (vx: real) (vy: real) (vz: real)

definition minus_v :: "vec3 \<Rightarrow> vec3 \<Rightarrow> vec3" where
  "minus_v a b = Vec3 (vx a - vx b) (vy a - vy b) (vz a - vz b)"

definition plus_v :: "vec3 \<Rightarrow> vec3 \<Rightarrow> vec3" where
  "plus_v a b = Vec3 (vx a + vx b) (vy a + vy b) (vz a + vz b)"

definition scaled :: "vec3 \<Rightarrow> real \<Rightarrow> vec3" where
  "scaled a s = Vec3 (vx a * s) (vy a * s) (vz a * s)"

definition dot :: "vec3 \<Rightarrow> vec3 \<Rightarrow> real" where
  "dot a b = vx a * vx b + vy a * vy b + vz a * vz b"

definition norm_v :: "vec3 \<Rightarrow> real" where
  "norm_v a = sqrt (vx a * vx a + vy a * vy a + vz a * vz a)"

definition offset :: "vec3 \<Rightarrow> real \<Rightarrow> real \<Rightarrow> real \<Rightarrow> vec3" where
  "offset a dx dy dz = Vec3 (vx a + dx) (vy a + dy) (vz a + dz)"

definition distanceTo :: "vec3 \<Rightarrow> vec3 \<Rightarrow> real" where
  "distanceTo a b =
     sqrt ((vx b - vx a) * (vx b - vx a) + (vy b - vy a) * (vy b - vy a)
           + (vz b - vz a) * (vz b - vz a))"

section \<open>ThePathfinder.closestPointOnLineSegment\<close>

text \<open>
  A JavaScript division by zero does not raise: it yields an infinity or NaN. To state
  that the function never divides by zero, the division of the model is checked:
  \<open>None\<close> marks a division whose divisor is zero.
\<close>

definition checked_div :: "real \<Rightarrow> real \<Rightarrow> real option" where
  "checked_div a b = (if b = 0 then None else Some (a / b))"

definition closestPointOnLineSegment :: "vec3 \<Rightarrow> vec3 \<Rightarrow> vec3 \<Rightarrow> vec3 option" where
  "closestPointOnLineSegment point segmentStart segmentEnd =
     (let segmentLength = norm_v (minus_v segmentEnd segmentStart) in
      if segmentLength = 0 then Some segmentStart
      else
        (case checked_div (dot (minus_v point segmentStart) (minus_v segmentEnd segmentStart))
                (segmentLength ^ 2) of
           None \<Rightarrow> None
         | Some t \<Rightarrow>
             if t < 0 then Some segmentStart
             else if t > 1 then Some segmentEnd
             else Some (plus_v segmentStart (scaled (minus_v segmentEnd segmentStart) t))))"

text \<open>The projection parameter of a point on the line through the two end points.\<close>

definition projection_parameter :: "vec3 \<Rightarrow> vec3 \<Rightarrow> vec3 \<Rightarrow> real" where
  "projection_parameter point segmentStart segmentEnd =
     dot (minus_v point segmentStart) (minus_v segmentEnd segmentStart)
       / (norm_v (minus_v segmentEnd segmentStart)) ^ 2"

text \<open>The points of the closed segment from \<open>a\<close> to \<open>b\<close>.\<close>

definition on_segment :: "vec3 \<Rightarrow> vec3 \<Rightarrow> vec3 \<Rightarrow> bool" where
  "on_segment p a b = (\<exists>u. 0 \<le> u \<and> u \<le> 1 \<and> p = plus_v a (scaled (minus_v b a) u))"

lemma on_segment_start: "on_segment a a b"
  unfolding on_segment_def
  by (rule exI [of _ 0]) (cases a, simp add: plus_v_def scaled_def)

lemma on_segment_end: "on_segment b a b"
  unfolding on_segment_def
  by (rule exI [of _ 1]) (cases a, cases b, simp add: plus_v_def scaled_def minus_v_def)

lemma on_segment_between:
  "0 \<le> t \<Longrightarrow> t \<le> 1 \<Longrightarrow> on_segment (plus_v a (scaled (minus_v b a) t)) a b"
  unfolding on_segment_def by blast

text \<open>
  Claim C9. \<open>closestPointOnLineSegment\<close> always returns a point, never dividing by
  zero, and the point lies on the closed segment: the start point for a segment of length
  zero and for a projection parameter below 0, the end point for a parameter above 1, the
  interpolated point otherwise.
\<close>

theorem closestPointOnLineSegment_total_on_segment:
  "(\<exists>r. closestPointOnLineSegment p a b = Some r \<and> on_segment r a b)
   \<and> (norm_v (minus_v b a) = 0 \<longrightarrow> closestPointOnLineSegment p a b = Some a)
   \<and> (norm_v (minus_v b a) \<noteq> 0 \<and> projection_parameter p a b < 0
        \<longrightarrow> closestPointOnLineSegment p a b = Some a)
   \<and> (norm_v (minus_v b a) \<noteq> 0 \<and> projection_parameter p a b > 1
        \<longrightarrow> closestPointOnLineSegment p a b = Some b)
   \<and> (norm_v (minus_v b a) \<noteq> 0 \<and> 0 \<le> projection_parameter p a b
        \<and> projection_parameter p a b \<le> 1
        \<longrightarrow> closestPointOnLineSegment p a b
            = Some (plus_v a (scaled (minus_v b a) (projection_parameter p a b))))"
proof -
  let ?l = "norm_v (minus_v b a)"
  let ?t = "projection_parameter p a b"
  have div: "?l \<noteq> 0 \<Longrightarrow>
      checked_div (dot (minus_v p a) (minus_v b a)) (?l ^ 2) = Some ?t"
    by (simp add: checked_div_def projection_parameter_def)
  show ?thesis
  proof (cases "?l = 0")
    case True
    then show ?thesis
      by (simp add: closestPointOnLineSegment_def on_segment_start)
  next
    case False
    consider "?t < 0" | "?t > 1" | "0 \<le> ?t \<and> ?t \<le> 1" by linarith
    then show ?thesis
    proof cases
      case 1
      with False div show ?thesis
        by (simp add: closestPointOnLineSegment_def on_segment_start)
    next
      case 2
      with False div show ?thesis
        by (simp add: closestPointOnLineSegment_def on_segment_end)
    next
      case 3
      with False div show ?thesis
        by (simp add: closestPointOnLineSegment_def on_segment_between)
    qed
  qed
qed

theorem closestPointOnLineSegment_witness:
  "closestPointOnLineSegment (Vec3 1 1 0) (Vec3 0 0 0) (Vec3 2 0 0) = Some (Vec3 1 0 0)
   \<and> closestPointOnLineSegment (Vec3 1 1 0) (Vec3 3 0 0) (Vec3 3 0 0) = Some (Vec3 3 0 0)
   \<and> closestPointOnLineSegment (Vec3 (-1) 1 0) (Vec3 0 0 0) (Vec3 2 0 0) = Some (Vec3 0 0 0)
   \<and> closestPointOnLineSegment (Vec3 5 1 0) (Vec3 0 0 0) (Vec3 2 0 0) = Some (Vec3 2 0 0)"
  using closestPointOnLineSegment_total_on_segment [of "Vec3 1 1 0" "Vec3 0 0 0" "Vec3 2 0 0"]
    closestPointOnLineSegment_total_on_segment [of "Vec3 1 1 0" "Vec3 3 0 0" "Vec3 3 0 0"]
    closestPointOnLineSegment_total_on_segment [of "Vec3 (-1) 1 0" "Vec3 0 0 0" "Vec3 2 0 0"]
    closestPointOnLineSegment_total_on_segment [of "Vec3 5 1 0" "Vec3 0 0 0" "Vec3 2 0 0"]
  by (simp add: projection_parameter_def norm_v_def minus_v_def dot_def plus_v_def scaled_def)


section \<open>Paths\<close>

text \<open>
  The result of a search (interface \<^verbatim>\<open>Path\<close> of \<^verbatim>\<open>abstract/index.ts\<close>). The status is
  one of the strings \<^verbatim>\<open>'success'\<close>, \<^verbatim>\<open>'partial'\<close>, \<^verbatim>\<open>'partialSuccess'\<close>, \<^verbatim>\<open>'noPath'\<close> and
  \<^verbatim>\<open>'timeout'\<close>. The field \<^verbatim>\<open>context\<close> is written \<open>pathContext\<close>. The type of the
  field \<open>path\<close> is a parameter: the move sequence itself, or the address of the array
  that holds it where aliasing matters.
\<close>

datatype status = Success | Partial | PartialSuccess | NoPath | Timeout

record ('p, 'c) Path =
  status :: status
  cost :: real
  calcTime :: real
  visitedNodes :: nat
  generatedNodes :: nat
  path :: 'p
  pathContext :: 'c

section \<open>ThePathfinder.postProcess\<close>

text \<open>
  \<^verbatim>\<open>postProcess\<close> hands the array of moves to the optimizer, copies the Path object
  (\<^verbatim>\<open>{ ...pathInfo }\<close>) and stores the optimizer's result in the copy. Objects and arrays
  live in a store: Path objects by address, arrays of moves by address, and \<open>fresh\<close>
  is the next unused object address. The optimizer (class \<^verbatim>\<open>Optimizer\<close>, not among the
  sources) is a parameter: given the arrays and the address of the loaded array it returns
  the arrays as it leaves them and the address of its result.
\<close>

record ('m, 'c) store =
  objs :: "nat \<Rightarrow> (nat, 'c) Path option"
  arrs :: "nat \<Rightarrow> 'm list option"
  fresh :: nat

type_synonym 'm optimizer = "(nat \<Rightarrow> 'm list option) \<Rightarrow> nat \<Rightarrow> (nat \<Rightarrow> 'm list option) \<times> nat"

definition postProcess ::
  "'m optimizer \<Rightarrow> ('m, 'c) store \<Rightarrow> nat \<Rightarrow> (nat \<times> ('m, 'c) store) option" where
  "postProcess compute st pathInfo =
     (case objs st pathInfo of
        None \<Rightarrow> None
      | Some p \<Rightarrow>
          (case compute (arrs st) (path p) of
             (arrs', res) \<Rightarrow>
               let ret = fresh st in
               Some (ret, st\<lparr>objs := (objs st)(ret \<mapsto> p\<lparr>path := res\<rparr>),
                              arrs := arrs', fresh := Suc (fresh st)\<rparr>)))"

text \<open>Every allocated object lies below the next unused address.\<close>

definition store_ok :: "('m, 'c) store \<Rightarrow> bool" where
  "store_ok st = (\<forall>a. objs st a \<noteq> None \<longrightarrow> a < fresh st)"

text \<open>
  Claim C10. \<open>postProcess\<close> returns a new Path object that agrees with the input on
  status, cost, calcTime, visitedNodes, generatedNodes and context, and whose path is the
  optimizer's result; the input object keeps all its fields, as does every other object.
\<close>

theorem postProcess_frame:
  assumes "store_ok st" and "objs st pathInfo = Some p"
  shows "\<exists>ret st' q.
           postProcess compute st pathInfo = Some (ret, st')
         \<and> ret \<noteq> pathInfo
         \<and> objs st ret = None
         \<and> objs st' ret = Some q
         \<and> status q = status p \<and> cost q = cost p \<and> calcTime q = calcTime p
         \<and> visitedNodes q = visitedNodes p \<and> generatedNodes q = generatedNodes p
         \<and> pathContext q = pathContext p
         \<and> path q = snd (compute (arrs st) (path p))
         \<and> objs st' pathInfo = Some p
         \<and> (\<forall>a. a \<noteq> ret \<longrightarrow> objs st' a = objs st a)"
proof -
  obtain arrs' res where c: "compute (arrs st) (path p) = (arrs', res)"
    by (cases "compute (arrs st) (path p)")
  have lt: "pathInfo < fresh st"
    using assms by (simp add: store_ok_def)
  have free: "objs st (fresh st) = None"
  proof (rule ccontr)
    assume "objs st (fresh st) \<noteq> None"
    with assms(1) have "fresh st < fresh st" unfolding store_ok_def by blast
    then show False by simp
  qed
  from lt have ne: "fresh st \<noteq> pathInfo" by simp
  show ?thesis
    using assms(2) c ne free by (simp add: postProcess_def Let_def)
qed

definition example_store :: "(nat, unit) store" where
  "example_store =
     \<lparr>objs = (\<lambda>a. if a = 0 then Some \<lparr>status = Success, cost = 3, calcTime = 7,
                      visitedNodes = 4, generatedNodes = 9, path = 0, pathContext = ()\<rparr>
                    else None),
      arrs = (\<lambda>a. if a = 0 then Some [1, 2, 3] else None),
      fresh = 1\<rparr>"

text \<open>An optimizer that drops the first move, in a new array at address 1.\<close>

definition example_optimizer :: "nat optimizer" where
  "example_optimizer as a = (as(1 := map_option tl (as a)), 1)"

theorem postProcess_frame_witness:
  "\<exists>st' q. postProcess example_optimizer example_store 0 = Some (1, st')
     \<and> objs st' 1 = Some q \<and> status q = Success \<and> cost q = 3 \<and> path q = 1
     \<and> arrs st' 1 = Some [2, 3]
     \<and> objs st' 0 = objs example_store 0"
proof -
  have ok: "store_ok example_store"
    by (simp add: store_ok_def example_store_def)
  have ob: "objs example_store 0 = Some \<lparr>status = Success, cost = 3, calcTime = 7,
      visitedNodes = 4, generatedNodes = 9, path = 0, pathContext = ()\<rparr>"
    by (simp add: example_store_def)
  from postProcess_frame [OF ok ob, of example_optimizer]
  obtain ret st' q where r: "postProcess example_optimizer example_store 0 = Some (ret, st')"
    and q: "objs st' ret = Some q" "status q = Success" "cost q = 3"
    and same: "objs st' 0 = objs example_store 0"
    by (auto simp: ob)
  from r have ret: "ret = 1"
    by (auto simp: postProcess_def example_store_def example_optimizer_def Let_def)
  from r have "path q = 1 \<and> arrs st' 1 = Some [2, 3]"
    using q(1) unfolding ret
    by (auto simp: postProcess_def example_store_def example_optimizer_def Let_def)
  with r q same ret show ?thesis by auto
qed


section \<open>ContinuousPathProducer\<close>

text \<open>
  The search engine (class \<^verbatim>\<open>AStar\<close>, not among the sources) is a parameter: \<open>newAStar\<close>
  is the engine as its constructor leaves it, and \<open>compute\<close> runs one slice on an
  engine, returning the slice's Path and the engine as the slice leaves it. An instance
  carries the number of instances constructed before it as its identity. The producer is
  paired with the count of instances constructed so far. \<open>gc\<close> tells whether
  \<^verbatim>\<open>global.gc\<close> is there; the forced garbage collection itself has no effect on the model.
\<close>

record 'a AStar =
  ident :: nat
  engine :: 'a

record ('a, 'm) ContinuousPathProducer =
  astarContext :: "'a AStar option"
  currentPath :: "'m list"
  lastGc :: nat

definition new_producer :: "('a, 'm) ContinuousPathProducer" where
  "new_producer = \<lparr>astarContext = None, currentPath = [], lastGc = 0\<rparr>"

definition advance ::
  "'a \<Rightarrow> ('a \<Rightarrow> ('m list, 'c) Path \<times> 'a) \<Rightarrow> bool
   \<Rightarrow> ('a, 'm) ContinuousPathProducer \<times> nat
   \<Rightarrow> (('m list, 'c) Path \<times> 'a AStar) \<times> (('a, 'm) ContinuousPathProducer \<times> nat)" where
  "advance newAStar compute gc pc =
     (case pc of (producer, constructed) \<Rightarrow>
        (case (case astarContext producer of
                 None \<Rightarrow> (\<lparr>ident = constructed, engine = newAStar\<rparr>, Suc constructed)
               | Some a \<Rightarrow> (a, constructed)) of
           (a, constructed') \<Rightarrow>
             (case compute (engine a) of
                (result, e') \<Rightarrow>
                  let a' = a\<lparr>engine := e'\<rparr> in
                  ((result, a'),
                   (producer\<lparr>astarContext := Some a',
                             currentPath := path result,
                             lastGc := (if gc then Suc (lastGc producer) else lastGc producer)\<rparr>,
                    constructed')))))"

text \<open>The producer after \<open>n\<close> calls of \<open>advance\<close>.\<close>

fun advance_n ::
  "'a \<Rightarrow> ('a \<Rightarrow> ('m list, 'c) Path \<times> 'a) \<Rightarrow> bool \<Rightarrow> nat
   \<Rightarrow> ('a, 'm) ContinuousPathProducer \<times> nat \<Rightarrow> ('a, 'm) ContinuousPathProducer \<times> nat" where
  "advance_n newAStar compute gc 0 pc = pc"
| "advance_n newAStar compute gc (Suc n) pc =
     snd (advance newAStar compute gc (advance_n newAStar compute gc n pc))"

text \<open>The engine after \<open>n\<close> slices.\<close>

fun engine_after :: "('a \<Rightarrow> 'r \<times> 'a) \<Rightarrow> nat \<Rightarrow> 'a \<Rightarrow> 'a" where
  "engine_after compute 0 e = e"
| "engine_after compute (Suc n) e = snd (compute (engine_after compute n e))"

lemma advance_first:
  "astarContext producer = None \<Longrightarrow>
   advance newAStar compute gc (producer, c) =
     ((fst (compute newAStar), \<lparr>ident = c, engine = snd (compute newAStar)\<rparr>),
      (producer\<lparr>astarContext := Some \<lparr>ident = c, engine = snd (compute newAStar)\<rparr>,
                currentPath := path (fst (compute newAStar)),
                lastGc := (if gc then Suc (lastGc producer) else lastGc producer)\<rparr>,
       Suc c))"
  by (simp add: advance_def Let_def split: prod.splits)

lemma advance_later:
  "astarContext producer = Some a \<Longrightarrow>
   advance newAStar compute gc (producer, c) =
     ((fst (compute (engine a)), a\<lparr>engine := snd (compute (engine a))\<rparr>),
      (producer\<lparr>astarContext := Some (a\<lparr>engine := snd (compute (engine a))\<rparr>),
                currentPath := path (fst (compute (engine a))),
                lastGc := (if gc then Suc (lastGc producer) else lastGc producer)\<rparr>,
       c))"
  by (simp add: advance_def Let_def split: prod.splits)

lemma advance_n_Suc_state:
  "astarContext (fst (advance_n newAStar compute gc (Suc k) (new_producer, c)))
     = Some \<lparr>ident = c, engine = engine_after compute (Suc k) newAStar\<rparr>
   \<and> snd (advance_n newAStar compute gc (Suc k) (new_producer, c)) = Suc c"
proof (induction k)
  case 0
  show ?case
    by (simp add: advance_first new_producer_def)
next
  case (Suc k)
  obtain producer n where pc: "advance_n newAStar compute gc (Suc k) (new_producer, c) = (producer, n)"
    by (cases "advance_n newAStar compute gc (Suc k) (new_producer, c)")
  with Suc have ctx: "astarContext producer
        = Some \<lparr>ident = c, engine = engine_after compute (Suc k) newAStar\<rparr>" and n: "n = Suc c"
    by simp_all
  have "advance_n newAStar compute gc (Suc (Suc k)) (new_producer, c)
      = snd (advance newAStar compute gc (producer, n))"
    using pc by simp
  then show ?case
    using ctx n by (simp add: advance_later [OF ctx] del: advance_n.simps)
qed

text \<open>
  Claim C5. Over any number of calls of \<open>advance\<close> on a new producer, exactly one engine
  is constructed, by the first call; every later call runs \<open>compute\<close> on that instance,
  in the state the previous slice left it in, and returns that slice's result.
\<close>

theorem advance_one_engine:
  "snd (advance_n newAStar compute gc 0 (new_producer, c)) = c
   \<and> snd (advance_n newAStar compute gc (Suc k) (new_producer, c)) = Suc c
   \<and> astarContext (fst (advance_n newAStar compute gc (Suc k) (new_producer, c)))
       = Some \<lparr>ident = c, engine = engine_after compute (Suc k) newAStar\<rparr>
   \<and> fst (advance newAStar compute gc (advance_n newAStar compute gc (Suc k) (new_producer, c)))
       = (fst (compute (engine_after compute (Suc k) newAStar)),
          \<lparr>ident = c, engine = engine_after compute (Suc (Suc k)) newAStar\<rparr>)
   \<and> fst (advance newAStar compute gc (new_producer, c))
       = (fst (compute newAStar), \<lparr>ident = c, engine = engine_after compute 1 newAStar\<rparr>)"
proof -
  obtain producer n where pc: "advance_n newAStar compute gc (Suc k) (new_producer, c) = (producer, n)"
    by (cases "advance_n newAStar compute gc (Suc k) (new_producer, c)")
  from advance_n_Suc_state [of newAStar compute gc k c] pc
  have ctx: "astarContext producer
        = Some \<lparr>ident = c, engine = engine_after compute (Suc k) newAStar\<rparr>" and n: "n = Suc c"
    by simp_all
  have later: "fst (advance newAStar compute gc (producer, n))
       = (fst (compute (engine_after compute (Suc k) newAStar)),
          \<lparr>ident = c, engine = engine_after compute (Suc (Suc k)) newAStar\<rparr>)"
    by (simp add: advance_later [OF ctx])
  have first: "fst (advance newAStar compute gc (new_producer, c))
       = (fst (compute newAStar), \<lparr>ident = c, engine = engine_after compute 1 newAStar\<rparr>)"
    by (simp add: advance_first new_producer_def)
  show ?thesis
    using ctx n later first unfolding pc by simp
qed


section \<open>ThePathfinder.getPathFromTo and getPathFromToRaw\<close>

text \<open>
  \<^verbatim>\<open>getPathFromTo\<close> is an asynchronous generator: each round of its loop calls the
  producer's \<^verbatim>\<open>advance\<close>, yields the result and, unless it returns, waits for a tick.
  \<^verbatim>\<open>getPathFromToRaw\<close> consumes the yields. The producer is a parameter \<open>adv\<close> on a
  producer state. While the generator waits, \<^verbatim>\<open>interrupt\<close> may be called, which assigns
  its argument \<^verbatim>\<open>cancelCalculation\<close> to the flag \<^verbatim>\<open>abortCalculation\<close>: \<open>interrupts i\<close> is
  the argument of the last such call during the wait of round \<open>i\<close>, \<open>None\<close> without a
  call. A search that never leaves the loop never returns: the value \<open>None\<close> of the
  partial function.
\<close>

text \<open>Whether the loop of the generator goes on after the round that yields \<open>result\<close>.\<close>

definition getPathFromTo_round :: "bool \<Rightarrow> ('p, 'c) Path \<Rightarrow> bool" where
  "getPathFromTo_round abortCalculation result =
     (if status result = Success then False
      else if abortCalculation then False
      else status result = Partial \<or> status result = PartialSuccess)"

partial_function (option) getPathFromToRaw_rounds ::
  "('s \<Rightarrow> (('p, 'c) Path \<times> 'x) \<times> 's) \<Rightarrow> (nat \<Rightarrow> bool option) \<Rightarrow> nat \<Rightarrow> bool \<Rightarrow> 's
   \<Rightarrow> (('p, 'c) Path option \<times> 's) option" where
  "getPathFromToRaw_rounds adv interrupts i abortCalculation s =
     (case adv s of
        ((result, ctx), s') \<Rightarrow>
          if status result \<noteq> Success then
            (if status result = NoPath \<or> status result = Timeout then Some (None, s')
             else if getPathFromTo_round abortCalculation result then
               getPathFromToRaw_rounds adv interrupts (Suc i)
                 (case interrupts i of None \<Rightarrow> abortCalculation | Some b \<Rightarrow> b) s'
             else Some (None, s'))
          else Some (Some result, s'))"

text \<open>The generator starts with \<^verbatim>\<open>abortCalculation = false\<close> and a new producer \<open>s\<close>.\<close>

definition getPathFromToRaw ::
  "('s \<Rightarrow> (('p, 'c) Path \<times> 'x) \<times> 's) \<Rightarrow> (nat \<Rightarrow> bool option) \<Rightarrow> 's
   \<Rightarrow> (('p, 'c) Path option \<times> 's) option" where
  "getPathFromToRaw adv interrupts s = getPathFromToRaw_rounds adv interrupts 0 False s"

text \<open>
  The producer after \<open>i\<close> rounds, the result of round \<open>i\<close>, and the flag
  \<^verbatim>\<open>abortCalculation\<close> as round \<open>i\<close> reads it.
\<close>

fun producer_after :: "('s \<Rightarrow> 'r \<times> 's) \<Rightarrow> 's \<Rightarrow> nat \<Rightarrow> 's" where
  "producer_after adv s 0 = s"
| "producer_after adv s (Suc i) = snd (adv (producer_after adv s i))"

definition result_at :: "('s \<Rightarrow> (('p, 'c) Path \<times> 'x) \<times> 's) \<Rightarrow> 's \<Rightarrow> nat \<Rightarrow> ('p, 'c) Path" where
  "result_at adv s i = fst (fst (adv (producer_after adv s i)))"

fun abort_at :: "(nat \<Rightarrow> bool option) \<Rightarrow> nat \<Rightarrow> bool" where
  "abort_at interrupts 0 = False"
| "abort_at interrupts (Suc i) =
     (case interrupts i of None \<Rightarrow> abort_at interrupts i | Some b \<Rightarrow> b)"

definition running :: "status \<Rightarrow> bool" where
  "running s = (s = Partial \<or> s = PartialSuccess)"

lemma rounds_stop:
  assumes "\<not> running (status (result_at adv s i)) \<or> abortCalculation"
  shows "getPathFromToRaw_rounds adv interrupts i abortCalculation (producer_after adv s i)
       = Some (if status (result_at adv s i) = Success then Some (result_at adv s i) else None,
               producer_after adv s (Suc i))"
  using assms
  apply (subst getPathFromToRaw_rounds.simps)
  apply (cases "adv (producer_after adv s i)")
  apply (auto simp: result_at_def running_def getPathFromTo_round_def split: prod.splits)
  done

lemma rounds_step:
  assumes "running (status (result_at adv s i))" and "\<not> abortCalculation"
  shows "getPathFromToRaw_rounds adv interrupts i abortCalculation (producer_after adv s i)
       = getPathFromToRaw_rounds adv interrupts (Suc i)
           (case interrupts i of None \<Rightarrow> abortCalculation | Some b \<Rightarrow> b)
           (producer_after adv s (Suc i))"
  using assms
  apply (subst getPathFromToRaw_rounds.simps)
  apply (cases "adv (producer_after adv s i)")
  apply (auto simp: result_at_def running_def getPathFromTo_round_def split: prod.splits)
  done

lemma rounds_from:
  assumes "\<forall>j. i \<le> j \<and> j < n \<longrightarrow> running (status (result_at adv s j)) \<and> \<not> abort_at interrupts j"
    and "\<not> running (status (result_at adv s n)) \<or> abort_at interrupts n"
    and "i \<le> n"
  shows "getPathFromToRaw_rounds adv interrupts i (abort_at interrupts i) (producer_after adv s i)
       = Some (if status (result_at adv s n) = Success then Some (result_at adv s n) else None,
               producer_after adv s (Suc n))"
  using assms
proof (induction "n - i" arbitrary: i)
  case 0
  then have "i = n" by simp
  with 0 show ?case
    using rounds_stop [of adv s n "abort_at interrupts n" interrupts] by simp
next
  case (Suc d)
  then have lt: "i < n" by simp
  with Suc.prems have r: "running (status (result_at adv s i))" "\<not> abort_at interrupts i"
    by auto
  have "getPathFromToRaw_rounds adv interrupts i (abort_at interrupts i) (producer_after adv s i)
      = getPathFromToRaw_rounds adv interrupts (Suc i) (abort_at interrupts (Suc i))
          (producer_after adv s (Suc i))"
    using rounds_step [OF r] by simp
  also have "\<dots> = Some (if status (result_at adv s n) = Success
                         then Some (result_at adv s n) else None,
                       producer_after adv s (Suc n))"
  proof (rule Suc.hyps(1))
    show "d = n - Suc i" using Suc.hyps(2) by simp
    show "\<forall>j. Suc i \<le> j \<and> j < n
            \<longrightarrow> running (status (result_at adv s j)) \<and> \<not> abort_at interrupts j"
      using Suc.prems(1) by auto
    show "\<not> running (status (result_at adv s n)) \<or> abort_at interrupts n"
      by (rule Suc.prems(2))
    show "Suc i \<le> n" using lt by simp
  qed
  finally show ?case .
qed

text \<open>
  Claim C4, as amended. No failure of the search is raised. When round \<open>n\<close> is the first
  whose status is neither partial nor partialSuccess, or that finds the calculation
  aborted, \<open>getPathFromToRaw\<close> returns after that round: the Path when its status is
  success, and null otherwise, which is when the status is noPath or timeout and also when
  the calculation was aborted in a round of status partial or partialSuccess.
\<close>

theorem getPathFromToRaw_result:
  assumes "\<forall>i<n. running (status (result_at adv s i)) \<and> \<not> abort_at interrupts i"
    and "\<not> running (status (result_at adv s n)) \<or> abort_at interrupts n"
  shows "getPathFromToRaw adv interrupts s
       = Some (if status (result_at adv s n) = Success then Some (result_at adv s n) else None,
               producer_after adv s (Suc n))
     \<and> (status (result_at adv s n) \<noteq> Success
          \<longrightarrow> status (result_at adv s n) = NoPath \<or> status (result_at adv s n) = Timeout
              \<or> (abort_at interrupts n \<and> running (status (result_at adv s n))))"
proof -
  have "getPathFromToRaw_rounds adv interrupts 0 (abort_at interrupts 0) (producer_after adv s 0)
       = Some (if status (result_at adv s n) = Success then Some (result_at adv s n) else None,
               producer_after adv s (Suc n))"
    using assms by (intro rounds_from) auto
  moreover have "status (result_at adv s n) \<noteq> Success
          \<longrightarrow> status (result_at adv s n) = NoPath \<or> status (result_at adv s n) = Timeout
              \<or> (abort_at interrupts n \<and> running (status (result_at adv s n)))"
    using assms(2) by (cases "status (result_at adv s n)") (auto simp: running_def)
  ultimately show ?thesis by (simp add: getPathFromToRaw_def)
qed

text \<open>A producer that needs two slices, and one that stays partial for ever.\<close>

definition path_of_status :: "status \<Rightarrow> (nat list, unit) Path" where
  "path_of_status st = \<lparr>status = st, cost = 0, calcTime = 0, visitedNodes = 0,
     generatedNodes = 0, path = [], pathContext = ()\<rparr>"

definition two_slices :: "nat \<Rightarrow> ((nat list, unit) Path \<times> unit) \<times> nat" where
  "two_slices k = ((path_of_status (if k = 0 then Partial else Success), ()), Suc k)"

definition always_partial :: "nat \<Rightarrow> ((nat list, unit) Path \<times> unit) \<times> nat" where
  "always_partial k = ((path_of_status Partial, ()), Suc k)"

definition no_interrupt :: "nat \<Rightarrow> bool option" where
  "no_interrupt i = None"

definition cancel_in_first_wait :: "nat \<Rightarrow> bool option" where
  "cancel_in_first_wait i = (if i = 0 then Some True else None)"

theorem getPathFromToRaw_result_witness:
  "getPathFromToRaw two_slices no_interrupt 0 = Some (Some (path_of_status Success), 2)"
proof -
  have r0: "result_at two_slices 0 0 = path_of_status Partial"
    by (simp add: result_at_def two_slices_def)
  have r1: "result_at two_slices 0 (Suc 0) = path_of_status Success"
    by (simp add: result_at_def two_slices_def)
  have a: "\<forall>i<Suc 0. running (status (result_at two_slices 0 i)) \<and> \<not> abort_at no_interrupt i"
    by (simp add: r0 running_def path_of_status_def)
  have b: "\<not> running (status (result_at two_slices 0 (Suc 0))) \<or> abort_at no_interrupt (Suc 0)"
    by (simp add: r1 running_def path_of_status_def)
  from getPathFromToRaw_result [OF a b] show ?thesis
    by (simp add: r1 path_of_status_def two_slices_def numeral_2_eq_2)
qed

text \<open>
  The claim as stated fails: the user cancels while the generator waits after its first
  round. The second round is partial again, the generator returns, and
  \<open>getPathFromToRaw\<close> returns null though no round had status noPath or timeout.
\<close>

theorem getPathFromToRaw_null_without_noPath:
  "getPathFromToRaw always_partial cancel_in_first_wait 0 = Some (None, 2)
   \<and> status (result_at always_partial 0 0) = Partial
   \<and> status (result_at always_partial 0 1) = Partial"
proof -
  have "getPathFromToRaw_rounds always_partial cancel_in_first_wait 1 True 1 = Some (None, 2)"
    by (subst getPathFromToRaw_rounds.simps)
       (simp add: always_partial_def path_of_status_def getPathFromTo_round_def)
  then have "getPathFromToRaw_rounds always_partial cancel_in_first_wait 0 False 0 = Some (None, 2)"
    by (subst getPathFromToRaw_rounds.simps)
       (simp add: always_partial_def path_of_status_def getPathFromTo_round_def
          cancel_in_first_wait_def)
  then show ?thesis
    by (simp add: getPathFromToRaw_def result_at_def always_partial_def path_of_status_def)
qed


section \<open>Movement providers\<close>

text \<open>
  Modelled from the spec: the class \<^verbatim>\<open>BlockInfo\<close> is not among the sources. These are the
  fields the spec lists for it and the providers read (the bounding boxes are left out),
  with the position of the block. The interaction intents a provider attaches to a move
  are \<^verbatim>\<open>BreakHandler.fromVec(v, "solid")\<close> and \<^verbatim>\<open>PlaceHandler.fromVec(v, "solid")\<close>.
\<close>

record BlockInfo =
  physical :: bool
  liquid :: bool
  replaceable :: bool
  safe :: bool
  height :: real
  position :: vec3

datatype BreakHandler = BreakSolid vec3

datatype PlaceHandler = PlaceSolid vec3

datatype provider = IdleMovement | ForwardMove | ForwardJumpMove

text \<open>
  Modelled from the spec: the class \<^verbatim>\<open>Move\<close> is not among the sources. A node of the
  search as the providers read it: its position \<^verbatim>\<open>toVec()\<close> and \<^verbatim>\<open>remainingBlocks\<close>, the
  count of blocks that can still be placed. The count is a sum of item counts, or
  \<^verbatim>\<open>Infinity\<close> in creative mode (\<^verbatim>\<open>getScaffoldCount\<close>), hence an extended natural number.
\<close>

record node =
  toVec :: vec3
  remainingBlocks :: enat

text \<open>
  The base class \<^verbatim>\<open>Movement\<close> is not among the sources; the methods of it that the
  providers call are parameters. \<open>safeOrBreak\<close> returns its cost and the list \<^verbatim>\<open>toBreak\<close>
  as it leaves it. \<^verbatim>\<open>Move.fromPrevious\<close>, which builds the move that is emitted, is a
  parameter \<open>fromPrevious\<close> of each provider: its arguments are the cost of the
  transition, the exit position, the previous node, the provider, and the places and
  breaks of the move (empty when the call passes none).
\<close>

record Movement =
  getBlockInfo :: "vec3 \<Rightarrow> real \<Rightarrow> real \<Rightarrow> real \<Rightarrow> BlockInfo"
  safeToBreak :: "BlockInfo \<Rightarrow> bool"
  safeOrBreak :: "BlockInfo \<Rightarrow> BreakHandler list \<Rightarrow> real \<times> BreakHandler list"

type_synonym 'mv fromPrevious =
  "real \<Rightarrow> vec3 \<Rightarrow> node \<Rightarrow> provider \<Rightarrow> PlaceHandler list \<Rightarrow> BreakHandler list \<Rightarrow> 'mv"

subsection \<open>ForwardMove.getMoveForward\<close>

definition getMoveForward ::
  "Movement \<Rightarrow> 'mv fromPrevious \<Rightarrow> node \<Rightarrow> vec3 \<Rightarrow> 'mv list \<Rightarrow> 'mv list" where
  "getMoveForward this fromPrevious start dir neighbors =
     (let pos = toVec start;
          blockB = getBlockInfo this pos (vx dir) 1 (vz dir);
          blockC = getBlockInfo this pos (vx dir) 0 (vz dir);
          blockD = getBlockInfo this pos (vx dir) (- 1) (vz dir);
          cost = 1
      in if \<not> physical blockD then neighbors
         else if physical blockB \<or> physical blockC then neighbors
         else neighbors @ [fromPrevious cost (offset (plus_v pos dir) 0.5 0.5 0.5)
                             start ForwardMove [] []])"

text \<open>The centre of the block whose corner of least coordinates is \<open>v\<close>.\<close>

definition block_centre :: "vec3 \<Rightarrow> vec3" where
  "block_centre v = Vec3 (vx v + 1 / 2) (vy v + 1 / 2) (vz v + 1 / 2)"

text \<open>
  Claim C7. For a node and a horizontal direction, \<open>getMoveForward\<close> emits a move if and
  only if the block below the destination is physical and neither the block of the
  destination nor the block above it is; the one move it emits has cost 1 and exits at the
  centre of the destination block.
\<close>

theorem getMoveForward_iff:
  assumes "vy dir = 0"
  shows "getMoveForward this fromPrevious start dir neighbors =
     (if physical (getBlockInfo this (toVec start) (vx dir) (- 1) (vz dir))
         \<and> \<not> physical (getBlockInfo this (toVec start) (vx dir) 0 (vz dir))
         \<and> \<not> physical (getBlockInfo this (toVec start) (vx dir) 1 (vz dir))
      then neighbors @ [fromPrevious 1
             (block_centre (Vec3 (vx (toVec start) + vx dir) (vy (toVec start))
                                 (vz (toVec start) + vz dir)))
             start ForwardMove [] []]
      else neighbors)"
  using assms
  by (auto simp: getMoveForward_def Let_def block_centre_def offset_def plus_v_def)

text \<open>A world whose blocks below height 64 are solid, and a provider that records its arguments.\<close>

definition flat_world :: Movement where
  "flat_world =
     \<lparr>getBlockInfo = (\<lambda>p dx dy dz.
         \<lparr>physical = (vy p + dy < 64), liquid = False, replaceable = \<not> (vy p + dy < 64),
          safe = True, height = (if vy p + dy < 64 then vy p + dy + 1 else vy p + dy),
          position = Vec3 (vx p + dx) (vy p + dy) (vz p + dz)\<rparr>),
      safeToBreak = (\<lambda>b. True),
      safeOrBreak = (\<lambda>b toBreak. if physical b then (1, toBreak @ [BreakSolid (position b)])
                                  else (0, toBreak))\<rparr>"

definition record_move ::
  "(real \<times> vec3 \<times> node \<times> provider \<times> PlaceHandler list \<times> BreakHandler list) fromPrevious" where
  "record_move c e n p tp tb = (c, e, n, p, tp, tb)"

definition ground_node :: node where
  "ground_node = \<lparr>toVec = Vec3 0 64 0, remainingBlocks = 0\<rparr>"

theorem getMoveForward_iff_witness:
  "getMoveForward flat_world record_move ground_node (Vec3 1 0 0) []
     = [(1, Vec3 (3 / 2) (129 / 2) (1 / 2), ground_node, ForwardMove, [], [])]"
  using getMoveForward_iff [of "Vec3 1 0 0" flat_world record_move ground_node "[]"]
  by (simp add: flat_world_def record_move_def ground_node_def block_centre_def)


subsection \<open>ForwardJumpMove.getMoveJumpUp\<close>

text \<open>
  The block \<^verbatim>\<open>if (!blockC.physical) { ... }\<close> of \<^verbatim>\<open>getMoveJumpUp\<close>: the supports to place
  below the landing. \<open>None\<close> is a \<^verbatim>\<open>return\<close> of the provider; otherwise the lists
  \<^verbatim>\<open>toBreak\<close> and \<^verbatim>\<open>toPlace\<close> and the height \<^verbatim>\<open>cHeight\<close> as the block leaves them.
\<close>

definition getMoveJumpUp_support ::
  "Movement \<Rightarrow> node \<Rightarrow> vec3 \<Rightarrow> vec3 \<Rightarrow> BlockInfo
   \<Rightarrow> (BreakHandler list \<times> PlaceHandler list \<times> real) option" where
  "getMoveJumpUp_support this nd pos dir blockC =
     (if \<not> physical blockC then
        if remainingBlocks nd = 0 then None
        else
          let blockD = getBlockInfo this pos (vx dir) (- 1) (vz dir) in
          (case (if \<not> physical blockD then
                   if remainingBlocks nd = 1 then None
                   else if \<not> replaceable blockD then
                     if \<not> safeToBreak this blockD then None
                     else Some ([BreakSolid (position blockD)], [PlaceSolid (position blockD)])
                   else Some ([], [PlaceSolid (position blockD)])
                 else Some ([], [])) of
             None \<Rightarrow> None
           | Some (toBreak, toPlace) \<Rightarrow>
               if \<not> replaceable blockC then
                 if \<not> safeToBreak this blockC then None
                 else Some (toBreak @ [BreakSolid (position blockC)],
                            toPlace @ [PlaceSolid (position blockC)], height blockC + 1)
               else Some (toBreak, toPlace @ [PlaceSolid (position blockC)], height blockC + 1))
      else Some ([], [], height blockC))"

definition getMoveJumpUp ::
  "Movement \<Rightarrow> 'mv fromPrevious \<Rightarrow> node \<Rightarrow> vec3 \<Rightarrow> 'mv list \<Rightarrow> 'mv list" where
  "getMoveJumpUp this fromPrevious nd dir neighbors =
     (let pos = toVec nd;
          blockA = getBlockInfo this pos 0 2 0;
          blockH = getBlockInfo this pos (vx dir) 2 (vz dir);
          blockB = getBlockInfo this pos (vx dir) 1 (vz dir);
          blockC = getBlockInfo this pos (vx dir) 0 (vz dir)
      in case getMoveJumpUp_support this nd pos dir blockC of
           None \<Rightarrow> neighbors
         | Some (toBreak0, toPlace, cHeight) \<Rightarrow>
             let block0 = getBlockInfo this pos 0 (- 1) 0 in
             if cHeight - height block0 > 1.2 then neighbors
             else
               (case safeOrBreak this blockA toBreak0 of
                  (costA, toBreak1) \<Rightarrow>
                    let cost1 = 2 + costA in
                    if cost1 > 100 then neighbors
                    else
                      (case safeOrBreak this blockH toBreak1 of
                         (costH, toBreak2) \<Rightarrow>
                           let cost2 = cost1 + costH in
                           if cost2 > 100 then neighbors
                           else
                             (case safeOrBreak this blockB toBreak2 of
                                (costB, toBreak3) \<Rightarrow>
                                  let cost3 = cost2 + costB in
                                  if cost3 > 100 then neighbors
                                  else neighbors @
                                    [fromPrevious cost3 (offset (position blockB) 0.5 0.5 0.5)
                                       nd ForwardJumpMove toPlace toBreak3]))))"

lemma getMoveJumpUp_support_none_0:
  "\<not> physical blockC \<Longrightarrow> remainingBlocks nd = 0
   \<Longrightarrow> getMoveJumpUp_support this nd pos dir blockC = None"
  by (simp add: getMoveJumpUp_support_def)

lemma getMoveJumpUp_support_none_1:
  "\<not> physical blockC \<Longrightarrow> \<not> physical (getBlockInfo this pos (vx dir) (- 1) (vz dir))
   \<Longrightarrow> remainingBlocks nd \<le> 1
   \<Longrightarrow> getMoveJumpUp_support this nd pos dir blockC = None"
proof -
  assume c: "\<not> physical blockC"
    and d: "\<not> physical (getBlockInfo this pos (vx dir) (- 1) (vz dir))"
    and r: "remainingBlocks nd \<le> 1"
  from r have "remainingBlocks nd = 0 \<or> remainingBlocks nd = 1"
    by (cases "remainingBlocks nd") (auto simp: one_enat_def zero_enat_def)
  with c d show ?thesis
    by (auto simp: getMoveJumpUp_support_def Let_def)
qed

text \<open>The provider left the list as it was, or appended one move of cost at most 100.\<close>

definition emitted_within_ceiling :: "'mv fromPrevious \<Rightarrow> node \<Rightarrow> 'mv list \<Rightarrow> 'mv list \<Rightarrow> bool" where
  "emitted_within_ceiling fromPrevious nd neighbors out =
     (out = neighbors
      \<or> (\<exists>c e toPlace toBreak. c \<le> 100
            \<and> out = neighbors @ [fromPrevious c e nd ForwardJumpMove toPlace toBreak]))"

lemma emitted_nothing: "emitted_within_ceiling fromPrevious nd neighbors neighbors"
  by (simp add: emitted_within_ceiling_def)

lemma emitted_one:
  "c \<le> 100 \<Longrightarrow> emitted_within_ceiling fromPrevious nd neighbors
     (neighbors @ [fromPrevious c e nd ForwardJumpMove tp tb])"
  unfolding emitted_within_ceiling_def by blast

lemma getMoveJumpUp_emits:
  "emitted_within_ceiling fromPrevious nd neighbors
     (getMoveJumpUp this fromPrevious nd dir neighbors)"
  unfolding getMoveJumpUp_def Let_def
  by (simp split: option.splits prod.splits add: emitted_nothing emitted_one)

text \<open>
  Claim C6. \<open>getMoveJumpUp\<close> emits nothing when the landing block is not physical and no
  placeable block remains, nor when the landing block and the block below it both are not
  physical and at most one placeable block remains. In every case it emits nothing, or one
  move whose cost is at most 100.
\<close>

theorem getMoveJumpUp_resources_and_ceiling:
  "(\<not> physical (getBlockInfo this (toVec nd) (vx dir) 0 (vz dir)) \<and> remainingBlocks nd = 0
      \<longrightarrow> getMoveJumpUp this fromPrevious nd dir neighbors = neighbors)
   \<and> (\<not> physical (getBlockInfo this (toVec nd) (vx dir) 0 (vz dir))
        \<and> \<not> physical (getBlockInfo this (toVec nd) (vx dir) (- 1) (vz dir))
        \<and> remainingBlocks nd \<le> 1
      \<longrightarrow> getMoveJumpUp this fromPrevious nd dir neighbors = neighbors)
   \<and> (getMoveJumpUp this fromPrevious nd dir neighbors = neighbors
        \<or> (\<exists>c e toPlace toBreak. c \<le> 100
             \<and> getMoveJumpUp this fromPrevious nd dir neighbors
                 = neighbors @ [fromPrevious c e nd ForwardJumpMove toPlace toBreak]))"
proof (intro conjI impI)
  assume "\<not> physical (getBlockInfo this (toVec nd) (vx dir) 0 (vz dir)) \<and> remainingBlocks nd = 0"
  then show "getMoveJumpUp this fromPrevious nd dir neighbors = neighbors"
    by (simp add: getMoveJumpUp_def Let_def getMoveJumpUp_support_none_0)
next
  assume "\<not> physical (getBlockInfo this (toVec nd) (vx dir) 0 (vz dir))
        \<and> \<not> physical (getBlockInfo this (toVec nd) (vx dir) (- 1) (vz dir))
        \<and> remainingBlocks nd \<le> 1"
  then show "getMoveJumpUp this fromPrevious nd dir neighbors = neighbors"
    by (simp add: getMoveJumpUp_def Let_def getMoveJumpUp_support_none_1)
next
  show "getMoveJumpUp this fromPrevious nd dir neighbors = neighbors
        \<or> (\<exists>c e toPlace toBreak. c \<le> 100
             \<and> getMoveJumpUp this fromPrevious nd dir neighbors
                 = neighbors @ [fromPrevious c e nd ForwardJumpMove toPlace toBreak])"
    using getMoveJumpUp_emits [of fromPrevious nd neighbors this dir]
    by (simp add: emitted_within_ceiling_def)
qed


definition raised_node :: node where
  "raised_node = \<lparr>toVec = Vec3 0 65 0, remainingBlocks = 1\<rparr>"

definition stocked_node :: node where
  "stocked_node = \<lparr>toVec = Vec3 0 64 0, remainingBlocks = 5\<rparr>"

theorem getMoveJumpUp_resources_and_ceiling_witness:
  "getMoveJumpUp flat_world record_move ground_node (Vec3 1 0 0) [] = []
   \<and> getMoveJumpUp flat_world record_move raised_node (Vec3 1 0 0) [] = []
   \<and> getMoveJumpUp flat_world record_move stocked_node (Vec3 1 0 0) []
       = [(2, Vec3 (3 / 2) (131 / 2) (1 / 2), stocked_node, ForwardJumpMove,
           [PlaceSolid (Vec3 1 64 0)], [])]"
proof -
  have a: "getMoveJumpUp flat_world record_move ground_node (Vec3 1 0 0) [] = []"
    using getMoveJumpUp_resources_and_ceiling
      [of flat_world ground_node "Vec3 1 0 0" record_move "[]"]
    by (simp add: flat_world_def ground_node_def)
  have b: "getMoveJumpUp flat_world record_move raised_node (Vec3 1 0 0) [] = []"
    using getMoveJumpUp_resources_and_ceiling
      [of flat_world raised_node "Vec3 1 0 0" record_move "[]"]
    by (simp add: flat_world_def raised_node_def)
  have c: "getMoveJumpUp flat_world record_move stocked_node (Vec3 1 0 0) []
       = [(2, Vec3 (3 / 2) (131 / 2) (1 / 2), stocked_node, ForwardJumpMove,
           [PlaceSolid (Vec3 1 64 0)], [])]"
    by (simp add: getMoveJumpUp_def getMoveJumpUp_support_def flat_world_def stocked_node_def
          record_move_def offset_def Let_def)
  from a b c show ?thesis by simp
qed


section \<open>Moves and failures\<close>

text \<open>
  Modelled from the spec: the class \<^verbatim>\<open>Move\<close> is not among the sources. A move of a path
  as the executors and the pathfinder read it: the provider that made it, its block
  position \<^verbatim>\<open>vec\<close>, its entry and exit positions and its interactions. A move is an
  object: \<open>ref\<close> is its identity, so two moves are the same object exactly when they
  are equal.
\<close>

record Move =
  ref :: nat
  moveType :: provider
  vec :: vec3
  entryPos :: vec3
  exitPos :: vec3
  toPlace :: "PlaceHandler list"
  toBreak :: "BreakHandler list"

text \<open>
  What the executors and the interactions throw: \<^verbatim>\<open>AbortError\<close>, \<^verbatim>\<open>ResetError\<close> with its
  reason, \<^verbatim>\<open>CancelError\<close>, and any other \<^verbatim>\<open>Error\<close> with its message.
\<close>

datatype ResetReason = blockUpdate | chunkLoad | goalUpdated

datatype thrown = AbortError | ResetError ResetReason | CancelError | OtherError string

section \<open>MovementExecutor.holdUntilAborted\<close>

text \<open>
  The flags of an executor. \<^verbatim>\<open>abort\<close> sets \<^verbatim>\<open>aborted\<close> and stores the reason it is given, a
  \<^verbatim>\<open>ResetError\<close> for a reset and nothing for a cancel by the user.
\<close>

record executor =
  aborted :: bool
  resetReason_ex :: "thrown option"

record entity =
  onGround :: bool
  isInWater :: bool

definition safeToCancel :: "entity \<Rightarrow> bool" where
  "safeToCancel e = (onGround e \<or> isInWater e)"

datatype interaction_abort = AbortBreak BreakHandler | AbortPlace PlaceHandler

text \<open>
  \<^verbatim>\<open>holdUntilAborted\<close> returns at once unless the executor is aborted or resetting. Else
  it aborts the breaks, then the places, and waits on a promise that a \<^verbatim>\<open>physicsTick\<close>
  listener resolves at the first tick where \<^verbatim>\<open>safeToCancel\<close> holds and that a timer
  rejects after \<^verbatim>\<open>timeout\<close> milliseconds. \<open>ticks\<close> lists the state of the bot at the
  physics ticks that fire before the timer does. The result is the list of interactions
  aborted, in order, and what is thrown (\<open>Inl\<close>) or a normal return (\<open>Inr\<close>).
\<close>

definition holdUntilAborted ::
  "executor \<Rightarrow> Move \<Rightarrow> entity list \<Rightarrow> interaction_abort list \<times> (thrown + unit)" where
  "holdUntilAborted this move ticks =
     (if \<not> aborted this \<and> resetReason_ex this = None then ([], Inr ())
      else
        let aborts = map AbortBreak (toBreak move) @ map AbortPlace (toPlace move) in
        if \<not> list_ex safeToCancel ticks then
          (aborts, Inl (OtherError ''Movement failed to abort properly.''))
        else
          (case resetReason_ex this of
             Some reason \<Rightarrow> (aborts, Inl reason)
           | None \<Rightarrow> if aborted this then (aborts, Inl AbortError) else (aborts, Inr ())))"

text \<open>
  Claim C8, as amended. For an executor that is aborted or resetting, the procedure aborts
  the breaks of the move and then its places. If the bot is grounded or in water at a tick
  before the timeout, it then throws the reset reason when one is set, and the abort
  failure otherwise; if the timeout elapses first it throws the failure
  \<^verbatim>\<open>Movement failed to abort properly.\<close> instead. An executor that is neither aborted
  nor resetting proceeds, and nothing is aborted.
\<close>

theorem holdUntilAborted_outcome:
  "(aborted this \<or> resetReason_ex this \<noteq> None \<longrightarrow>
      fst (holdUntilAborted this move ticks)
        = map AbortBreak (toBreak move) @ map AbortPlace (toPlace move)
      \<and> snd (holdUntilAborted this move ticks)
        = (if (\<exists>e \<in> set ticks. safeToCancel e)
           then (case resetReason_ex this of Some reason \<Rightarrow> Inl reason | None \<Rightarrow> Inl AbortError)
           else Inl (OtherError ''Movement failed to abort properly.'')))
   \<and> (\<not> aborted this \<and> resetReason_ex this = None \<longrightarrow>
      holdUntilAborted this move ticks = ([], Inr ()))"
  by (auto simp: holdUntilAborted_def Let_def list_ex_iff split: option.splits)

definition bridge_move :: Move where
  "bridge_move = \<lparr>ref = 0, moveType = ForwardMove, vec = Vec3 1 64 0,
     entryPos = Vec3 (1 / 2) 64 (1 / 2), exitPos = Vec3 (3 / 2) 64 (1 / 2),
     toPlace = [PlaceSolid (Vec3 1 63 0)], toBreak = [BreakSolid (Vec3 1 64 0), BreakSolid (Vec3 1 65 0)]\<rparr>"

definition airborne :: entity where
  "airborne = \<lparr>onGround = False, isInWater = False\<rparr>"

definition grounded :: entity where
  "grounded = \<lparr>onGround = True, isInWater = False\<rparr>"

theorem holdUntilAborted_outcome_witness:
  "holdUntilAborted \<lparr>aborted = True, resetReason_ex = Some (ResetError blockUpdate)\<rparr>
      bridge_move [airborne, grounded]
     = ([AbortBreak (BreakSolid (Vec3 1 64 0)), AbortBreak (BreakSolid (Vec3 1 65 0)),
         AbortPlace (PlaceSolid (Vec3 1 63 0))], Inl (ResetError blockUpdate))
   \<and> holdUntilAborted \<lparr>aborted = False, resetReason_ex = None\<rparr> bridge_move [airborne]
     = ([], Inr ())"
  using holdUntilAborted_outcome
      [of "\<lparr>aborted = True, resetReason_ex = Some (ResetError blockUpdate)\<rparr>"
          bridge_move "[airborne, grounded]"]
    holdUntilAborted_outcome
      [of "\<lparr>aborted = False, resetReason_ex = None\<rparr>" bridge_move "[airborne]"]
  by (simp add: prod_eq_iff bridge_move_def airborne_def grounded_def safeToCancel_def)

text \<open>
  The claim as stated fails when the timeout elapses: an executor aborted by the user
  whose bot stays in the air does not throw the abort failure.
\<close>

theorem holdUntilAborted_timeout_not_abort:
  "snd (holdUntilAborted \<lparr>aborted = True, resetReason_ex = None\<rparr> bridge_move [airborne, airborne])
     = Inl (OtherError ''Movement failed to abort properly.'')
   \<and> snd (holdUntilAborted \<lparr>aborted = True, resetReason_ex = None\<rparr> bridge_move [airborne, airborne])
     \<noteq> Inl AbortError"
  by (simp add: holdUntilAborted_def airborne_def safeToCancel_def)

section \<open>Execution of a path: perform and recovery\<close>

subsection \<open>The pathfinder and its environment\<close>

text \<open>
  A goal is one the caller supplies (by its identity) or \<^verbatim>\<open>GoalBlock.fromVec(v)\<close>.
\<close>

datatype goal = Goal nat | GoalBlock vec3

text \<open>
  What \<^verbatim>\<open>_performPerTick\<close> returns (\<^verbatim>\<open>boolean | number\<close>, the number an integer), with
  JavaScript's test \<^verbatim>\<open>!adding\<close> and the number that \<^verbatim>\<open>currentIndex += adding\<close> adds.
\<close>

datatype adding = ABool bool | ANum int

fun falsy :: "adding \<Rightarrow> bool" where
  "falsy (ABool b) = (\<not> b)"
| "falsy (ANum k) = (k = 0)"

fun toNumber :: "adding \<Rightarrow> int" where
  "toNumber (ABool b) = (if b then 1 else 0)"
| "toNumber (ANum k) = k"

text \<open>
  Calls from outside while the pathfinder waits: \<^verbatim>\<open>cancel()\<close> and \<^verbatim>\<open>reset(reason)\<close>.
\<close>

datatype interrupt_call = Cancel | Reset ResetReason

text \<open>
  The trace of a run: the events the pathfinder emits on the bot (\<^verbatim>\<open>enteredRecovery\<close>,
  \<^verbatim>\<open>exitedRecovery\<close>, \<^verbatim>\<open>resetPath\<close>) and its calls of its collaborators, in order.
\<close>

datatype event =
    EnteredRecovery nat
  | ExitedRecovery nat
  | ClearControlStates
  | IsAlreadyCompleted Move
  | Align Move nat
  | PerformInit Move int
  | PerformPerTick Move nat int
  | WaitForTicks
  | ResetPath ResetReason
  | GetPathFromToRaw vec3 goal
  | PostProcess

text \<open>
  What \<^verbatim>\<open>perform\<close> lets escape: its own \<^verbatim>\<open>Error('Too many failures, exiting performing.')\<close>,
  its \<^verbatim>\<open>Error('No executor for movement type ...')\<close>, the \<^verbatim>\<open>TypeError\<close> of reading a move
  at an index below 0, and any failure of an executor that is not an abort, a reset or a
  cancel, which it throws again.
\<close>

datatype failure = TooManyFailures | NoExecutor provider | TypeError | Uncaught string

text \<open>
  The state of the pathfinder that \<^verbatim>\<open>perform\<close> and \<^verbatim>\<open>recovery\<close> read and write: its flags,
  the trace, and \<open>controlsEngaged\<close>: a movement control has been pressed since the last
  \<^verbatim>\<open>bot.clearControlStates()\<close>. \<open>clock\<close> counts the consultations of the environment.
\<close>

record pathfinder =
  clock :: nat
  events :: "event list"
  controlsEngaged :: bool
  abortCalculation :: bool
  userAborted :: bool
  resetReason :: "ResetReason option"

text \<open>
  The environment answers for the collaborators, each answer a function of the clock:
  which providers have an executor; the executor methods \<^verbatim>\<open>isAlreadyCompleted\<close>, \<^verbatim>\<open>align\<close>,
  \<^verbatim>\<open>_performInit\<close> and \<^verbatim>\<open>_performPerTick\<close> (\<open>Inl\<close> and \<open>Some\<close> are what they throw); the
  calls of \<^verbatim>\<open>cancel\<close> and \<^verbatim>\<open>reset\<close> that arrive during a wait; the position of the bot; the
  outcome of \<^verbatim>\<open>getPathFromToRaw\<close> (\<open>None\<close>: the search never returns, \<open>Some None\<close>:
  null); and the optimizer of \<^verbatim>\<open>postProcess\<close>.

  \<open>pressed\<close> tells whether a movement control is pressed while the pathfinder awaits at
  that clock: by the executor method it awaits, or by a task that an executor started
  earlier and did not await. \<^verbatim>\<open>MovementExecutor.align\<close> starts such a task,
  \<^verbatim>\<open>void this.postInitAlignToPath(...)\<close>, which presses the controls after its own
  \<^verbatim>\<open>await\<close>, whatever \<^verbatim>\<open>align\<close> returned or threw; no \<^verbatim>\<open>clearControlStates\<close> cancels it.
\<close>

record environment =
  executors :: "provider \<Rightarrow> bool"
  isAlreadyCompleted :: "nat \<Rightarrow> Move \<Rightarrow> bool"
  align :: "nat \<Rightarrow> Move \<Rightarrow> nat \<Rightarrow> thrown + bool"
  performInit :: "nat \<Rightarrow> Move \<Rightarrow> int \<Rightarrow> thrown option"
  performPerTick :: "nat \<Rightarrow> Move \<Rightarrow> nat \<Rightarrow> int \<Rightarrow> thrown + adding"
  interrupts :: "nat \<Rightarrow> interrupt_call list"
  botPosition :: "nat \<Rightarrow> vec3"
  search :: "nat \<Rightarrow> vec3 \<Rightarrow> goal \<Rightarrow> (Move list, unit) Path option option"
  optimize :: "nat \<Rightarrow> Move list \<Rightarrow> Move list"
  pressed :: "nat \<Rightarrow> bool"

text \<open>
  \<open>emit\<close> adds an event of the bot to the trace, \<open>observed\<close> a consultation that is not
  awaited (\<^verbatim>\<open>isAlreadyCompleted\<close>), and \<open>called\<close> an awaited call of \<^verbatim>\<open>align\<close>,
  \<^verbatim>\<open>_performInit\<close>, \<^verbatim>\<open>_performPerTick\<close> or \<^verbatim>\<open>postProcess\<close>, during which controls may be pressed.
\<close>

definition emit :: "event \<Rightarrow> pathfinder \<Rightarrow> pathfinder" where
  "emit ev st = st\<lparr>events := events st @ [ev]\<rparr>"

definition observed :: "event \<Rightarrow> pathfinder \<Rightarrow> pathfinder" where
  "observed ev st = st\<lparr>clock := Suc (clock st), events := events st @ [ev]\<rparr>"

definition called :: "environment \<Rightarrow> event \<Rightarrow> pathfinder \<Rightarrow> pathfinder" where
  "called env ev st =
     st\<lparr>clock := Suc (clock st), events := events st @ [ev],
        controlsEngaged := (controlsEngaged st \<or> pressed env (clock st))\<rparr>"

text \<open>
  \<^verbatim>\<open>cancel\<close> sets \<^verbatim>\<open>userAborted\<close> and calls \<^verbatim>\<open>interrupt(1000, true)\<close>; \<^verbatim>\<open>reset(reason)\<close> emits
  \<^verbatim>\<open>resetPath\<close> and calls \<^verbatim>\<open>interrupt(cancelTimeout, false, reason)\<close>. \<^verbatim>\<open>interrupt\<close> assigns
  \<^verbatim>\<open>abortCalculation\<close> and \<^verbatim>\<open>resetReason\<close> (a producer and an executor are there while a path is
  searched or executed); what it tells the executor is part of the environment's answers.
\<close>

fun interrupt :: "interrupt_call \<Rightarrow> pathfinder \<Rightarrow> pathfinder" where
  "interrupt Cancel st = st\<lparr>userAborted := True, abortCalculation := True, resetReason := None\<rparr>"
| "interrupt (Reset reason) st =
     st\<lparr>events := events st @ [ResetPath reason], abortCalculation := False,
        resetReason := Some reason\<rparr>"

text \<open>
  \<^verbatim>\<open>await this.bot.waitForTicks(1)\<close>: the calls that arrive meanwhile take effect, and
  controls may be pressed.
\<close>

definition waitForTicks :: "environment \<Rightarrow> pathfinder \<Rightarrow> pathfinder" where
  "waitForTicks env st =
     (fold interrupt (interrupts env (clock st)) (emit WaitForTicks st))
       \<lparr>clock := Suc (clock st),
        controlsEngaged := (controlsEngaged st \<or> pressed env (clock st))\<rparr>"

text \<open>
  \<^verbatim>\<open>check\<close>, \<^verbatim>\<open>cleanupBot\<close> and \<^verbatim>\<open>cleanupClient\<close>. The executors that \<^verbatim>\<open>cleanupBot\<close> resets
  and the fields \<^verbatim>\<open>currentMove\<close>, \<^verbatim>\<open>currentExecutor\<close>, \<^verbatim>\<open>currentExecutingPath\<close> and
  \<^verbatim>\<open>currentGotoGoal\<close> that \<^verbatim>\<open>cleanupClient\<close> deletes are not part of the state: \<^verbatim>\<open>perform\<close> and
  \<^verbatim>\<open>recovery\<close> do not read them, and the executors answer through the environment.
  \<^verbatim>\<open>cleanupBot\<close> clears the controls and is awaited: a control may be pressed again before
  the caller goes on.
\<close>

definition check :: "pathfinder \<Rightarrow> thrown option" where
  "check st =
     (if userAborted st then Some AbortError
      else case resetReason st of Some reason \<Rightarrow> Some (ResetError reason) | None \<Rightarrow> None)"

definition cleanupBot :: "environment \<Rightarrow> pathfinder \<Rightarrow> pathfinder" where
  "cleanupBot env st =
     (emit ClearControlStates st)\<lparr>clock := Suc (clock st), controlsEngaged := pressed env (clock st)\<rparr>"

definition cleanupClient :: "pathfinder \<Rightarrow> pathfinder" where
  "cleanupClient st = st\<lparr>abortCalculation := False, userAborted := False, resetReason := None\<rparr>"

subsection \<open>One move\<close>

text \<open>
  The alignment loop of \<^verbatim>\<open>perform\<close>,
  \<^verbatim>\<open>while (!(await executor.align(move, tickCount++, goal)) && tickCount < 999) { this.check(); await this.bot.waitForTicks(1) }\<close>,
  entered with the given \<open>tickCount\<close>.
\<close>

function align_loop ::
  "environment \<Rightarrow> Move \<Rightarrow> nat \<Rightarrow> pathfinder \<Rightarrow> (thrown + unit) \<times> pathfinder" where
  "align_loop env move tickCount st =
     (case align env (clock st) move tickCount of
        Inl e \<Rightarrow> (Inl e, called env (Align move tickCount) st)
      | Inr aligned \<Rightarrow>
          if \<not> aligned \<and> Suc tickCount < 999 then
            (case check (called env (Align move tickCount) st) of
               Some e \<Rightarrow> (Inl e, called env (Align move tickCount) st)
             | None \<Rightarrow>
                 align_loop env move (Suc tickCount)
                   (waitForTicks env (called env (Align move tickCount) st)))
          else (Inr (), called env (Align move tickCount) st))"
  by pat_completeness auto
termination
  by (relation "measure (\<lambda>(env, move, tickCount, st). 999 - tickCount)") auto

declare align_loop.simps [simp del]

text \<open>
  The loop
  \<^verbatim>\<open>while (!adding && tickCount < 999) { this.check(); await this.bot.waitForTicks(1); adding = await executor._performPerTick(move, tickCount++, currentIndex, path.path) }\<close>.
\<close>

function perTick_loop ::
  "environment \<Rightarrow> Move \<Rightarrow> int \<Rightarrow> adding \<Rightarrow> nat \<Rightarrow> pathfinder \<Rightarrow> (thrown + adding) \<times> pathfinder" where
  "perTick_loop env move currentIndex adding tickCount st =
     (if falsy adding \<and> tickCount < 999 then
        (case check st of
           Some e \<Rightarrow> (Inl e, st)
         | None \<Rightarrow>
             (case performPerTick env (clock (waitForTicks env st)) move tickCount currentIndex of
                Inl e \<Rightarrow> (Inl e, called env (PerformPerTick move tickCount currentIndex) (waitForTicks env st))
              | Inr adding' \<Rightarrow>
                  perTick_loop env move currentIndex adding' (Suc tickCount)
                    (called env (PerformPerTick move tickCount currentIndex) (waitForTicks env st))))
      else (Inr adding, st))"
  by pat_completeness auto
termination
  by (relation "measure (\<lambda>(env, move, currentIndex, adding, tickCount, st). 999 - tickCount)") auto

declare perTick_loop.simps [simp del]

text \<open>
  The body of the \<^verbatim>\<open>try\<close> block of \<^verbatim>\<open>perform\<close> for one move: alignment, \<^verbatim>\<open>_performInit\<close>,
  \<^verbatim>\<open>check\<close>, the first \<^verbatim>\<open>_performPerTick\<close> and the per-tick loop. It returns what is thrown, or
  the last value of \<^verbatim>\<open>adding\<close>.
\<close>

definition executeMove ::
  "environment \<Rightarrow> Move \<Rightarrow> int \<Rightarrow> pathfinder \<Rightarrow> (thrown + adding) \<times> pathfinder" where
  "executeMove env move currentIndex st =
     (case align_loop env move 0 st of
        (Inl e, st1) \<Rightarrow> (Inl e, st1)
      | (Inr u, st1) \<Rightarrow>
          (case performInit env (clock st1) move currentIndex of
             Some e \<Rightarrow> (Inl e, called env (PerformInit move currentIndex) st1)
           | None \<Rightarrow>
               let st2 = called env (PerformInit move currentIndex) st1 in
               (case check st2 of
                  Some e \<Rightarrow> (Inl e, st2)
                | None \<Rightarrow>
                    (case performPerTick env (clock st2) move 0 currentIndex of
                       Inl e \<Rightarrow> (Inl e, called env (PerformPerTick move 0 currentIndex) st2)
                     | Inr adding \<Rightarrow>
                         perTick_loop env move currentIndex adding 1
                           (called env (PerformPerTick move 0 currentIndex) st2)))))"

text \<open>
  \<^verbatim>\<open>xs[i]\<close> (\<open>None\<close> is \<^verbatim>\<open>undefined\<close>) and \<^verbatim>\<open>xs.indexOf(a)\<close>, which compares objects by
  identity and returns -1 when there is none.
\<close>

definition nth_opt :: "'a list \<Rightarrow> int \<Rightarrow> 'a option" where
  "nth_opt xs i = (if 0 \<le> i \<and> i < int (length xs) then Some (xs ! nat i) else None)"

fun indexOf_from :: "'a list \<Rightarrow> 'a \<Rightarrow> int \<Rightarrow> int" where
  "indexOf_from [] a i = - 1"
| "indexOf_from (x # xs) a i = (if x = a then i else indexOf_from xs a (i + 1))"

definition indexOf :: "'a list \<Rightarrow> 'a \<Rightarrow> int" where
  "indexOf xs a = indexOf_from xs a 0"

subsection \<open>ThePathfinder.perform and ThePathfinder.recovery\<close>

text \<open>
  One round of the loop \<^verbatim>\<open>while (currentIndex < path.path.length)\<close> of \<^verbatim>\<open>perform\<close>: it
  returns from \<^verbatim>\<open>perform\<close>, goes on with a new \<^verbatim>\<open>currentIndex\<close>, or hands the move to
  \<^verbatim>\<open>recovery\<close> (the \<^verbatim>\<open>CancelError\<close> branch of the \<^verbatim>\<open>catch\<close>).
\<close>

datatype 'r step = Return 'r | Continue int pathfinder | Recover Move pathfinder

definition perform_step ::
  "environment \<Rightarrow> (Move list, unit) Path \<Rightarrow> goal \<Rightarrow> int \<Rightarrow> pathfinder
   \<Rightarrow> ((failure + unit) \<times> pathfinder) step" where
  "perform_step env p goal currentIndex st =
     (case nth_opt (path p) currentIndex of
        None \<Rightarrow> Return (Inl TypeError, st)
      | Some move \<Rightarrow>
          if \<not> executors env (moveType move) then Return (Inl (NoExecutor (moveType move)), st)
          else
            let st1 = cleanupBot env st in
            if isAlreadyCompleted env (clock st1) move
            then Continue (currentIndex + 1) (observed (IsAlreadyCompleted move) st1)
            else
              (case executeMove env move currentIndex (observed (IsAlreadyCompleted move) st1) of
                 (Inr adding, st2) \<Rightarrow> Continue (currentIndex + toNumber adding) st2
               | (Inl AbortError, st2) \<Rightarrow> Return (Inr (), st2\<lparr>resetReason := None\<rparr>)
               | (Inl (ResetError reason), st2) \<Rightarrow> Return (Inr (), st2)
               | (Inl CancelError, st2) \<Rightarrow> Recover move st2
               | (Inl (OtherError msg), st2) \<Rightarrow> Return (Inl (Uncaught msg), st2)))"

text \<open>
  What \<^verbatim>\<open>recovery\<close> decides before it searches (from \<^verbatim>\<open>path.path.indexOf(move)\<close> to the
  choice of \<^verbatim>\<open>newGoal\<close>). \<^verbatim>\<open>Array.prototype.sort\<close> sorts the array \<^verbatim>\<open>path.path\<close> in place
  and is stable, so every later \<^verbatim>\<open>path.path.indexOf\<close> and \<^verbatim>\<open>path.path[...]\<close> reads the sorted
  array, while \<^verbatim>\<open>ind\<close> was computed before the sort. \<open>None\<close>: the move is not in the path
  and \<^verbatim>\<open>recovery\<close> returns.
\<close>

record plan =
  plan_sorted :: "Move list"
  plan_ind :: int
  plan_nextMove :: "Move option"
  plan_no :: bool
  plan_newGoal :: goal

definition recoveryPlan :: "Move list \<Rightarrow> Move \<Rightarrow> vec3 \<Rightarrow> goal \<Rightarrow> nat \<Rightarrow> plan option" where
  "recoveryPlan moves move pos goal entry =
     (let ind = indexOf moves move in
      if ind = - 1 then None
      else
        let sorted = sort_key (\<lambda>a. distanceTo (entryPos a) pos) moves;
            nearest = nth_opt sorted 0;
            bad = (case nearest of None \<Rightarrow> True | Some m \<Rightarrow> indexOf sorted m < ind);
            nextMove = (case nearest of
                          None \<Rightarrow> None
                        | Some m \<Rightarrow> if indexOf sorted m < ind then Some m
                                    else if indexOf sorted m = ind then nth_opt sorted (ind + 1)
                                    else Some m);
            no = (entry > 0 \<or> bad);
            newGoal = (case nextMove of
                         None \<Rightarrow> goal
                       | Some m \<Rightarrow> if no then goal else GoalBlock (vec m))
        in Some \<lparr>plan_sorted = sorted, plan_ind = ind, plan_nextMove = nextMove,
                 plan_no = no, plan_newGoal = newGoal\<rparr>)"

text \<open>
  \<^verbatim>\<open>recovery\<close> up to its calls of \<^verbatim>\<open>perform\<close>: it is finished, it never returns from the
  search, it performs the new path towards the goal (\<open>Full\<close>), or it performs the new
  path towards the interim goal and then what is left of the old path (\<open>Interim\<close>).
  After \<^verbatim>\<open>getPathFromToRaw\<close> the flags are as \<^verbatim>\<open>getPathFromTo\<close> sets them at its start,
  changed by the calls that arrived while the search ran; controls may have been pressed
  while it ran.
\<close>

datatype replan =
    Finished pathfinder
  | NeverReturns
  | Full "(Move list, unit) Path" pathfinder
  | Interim "(Move list, unit) Path" goal "(Move list, unit) Path" pathfinder

definition after_search :: "environment \<Rightarrow> vec3 \<Rightarrow> goal \<Rightarrow> pathfinder \<Rightarrow> pathfinder" where
  "after_search env pos g st =
     (fold interrupt (interrupts env (clock st))
        (emit (GetPathFromToRaw pos g) (st\<lparr>abortCalculation := False, resetReason := None\<rparr>)))
       \<lparr>clock := Suc (clock st),
        controlsEngaged := (controlsEngaged st \<or> pressed env (clock st))\<rparr>"

definition postProcess_path ::
  "environment \<Rightarrow> (Move list, unit) Path \<Rightarrow> pathfinder \<Rightarrow> (Move list, unit) Path \<times> pathfinder" where
  "postProcess_path env pathInfo st =
     (pathInfo\<lparr>path := optimize env (clock st) (path pathInfo)\<rparr>, called env PostProcess st)"

definition recovery_enter :: "environment \<Rightarrow> nat \<Rightarrow> pathfinder \<Rightarrow> pathfinder" where
  "recovery_enter env entry st = cleanupClient (cleanupBot env (emit (EnteredRecovery entry) st))"

definition recovery_replan ::
  "environment \<Rightarrow> Move \<Rightarrow> (Move list, unit) Path \<Rightarrow> goal \<Rightarrow> nat \<Rightarrow> pathfinder \<Rightarrow> replan" where
  "recovery_replan env move p goal entry st =
     (let st1 = recovery_enter env entry st;
          pos = botPosition env (clock st1)
      in case recoveryPlan (path p) move pos goal entry of
           None \<Rightarrow> Finished st1
         | Some pl \<Rightarrow>
             (case search env (clock st1) pos (plan_newGoal pl) of
                None \<Rightarrow> NeverReturns
              | Some None \<Rightarrow>
                  Finished (emit (ExitedRecovery entry) (after_search env pos (plan_newGoal pl) st1))
              | Some (Some path1) \<Rightarrow>
                  (case postProcess_path env path1 (after_search env pos (plan_newGoal pl) st1) of
                     (path1', st2) \<Rightarrow>
                       if plan_no pl then Full path1' (emit (ExitedRecovery entry) st2)
                       else Interim path1' (plan_newGoal pl)
                              (p\<lparr>path := drop (nat (plan_ind pl + 1)) (plan_sorted pl)\<rparr>) st2)))"

text \<open>
  The loop of \<^verbatim>\<open>perform\<close> need not end (a per-tick loop that ends at its ceiling adds 0 to
  \<^verbatim>\<open>currentIndex\<close>, and the same move is tried again), so the loop and \<^verbatim>\<open>recovery\<close> take
  fuel: the result is \<open>None\<close> when the fuel runs out or the search never returns.
\<close>

fun perform ::
    "nat \<Rightarrow> environment \<Rightarrow> (Move list, unit) Path \<Rightarrow> goal \<Rightarrow> nat \<Rightarrow> pathfinder
     \<Rightarrow> ((failure + unit) \<times> pathfinder) option"
  and perform_loop ::
    "nat \<Rightarrow> environment \<Rightarrow> (Move list, unit) Path \<Rightarrow> goal \<Rightarrow> nat \<Rightarrow> int \<Rightarrow> pathfinder
     \<Rightarrow> ((failure + unit) \<times> pathfinder) option"
  and recovery ::
    "nat \<Rightarrow> environment \<Rightarrow> Move \<Rightarrow> (Move list, unit) Path \<Rightarrow> goal \<Rightarrow> nat \<Rightarrow> pathfinder
     \<Rightarrow> ((failure + unit) \<times> pathfinder) option" where
  "perform n env p goal entry st =
     (if entry > 10 then Some (Inl TooManyFailures, st)
      else perform_loop n env p goal entry 0 st)"
| "perform_loop 0 env p goal entry currentIndex st = None"
| "perform_loop (Suc n) env p goal entry currentIndex st =
     (if currentIndex < int (length (path p)) then
        (case perform_step env p goal currentIndex st of
           Return r \<Rightarrow> Some r
         | Continue i st' \<Rightarrow> perform_loop n env p goal entry i st'
         | Recover move st' \<Rightarrow> recovery n env move p goal entry st')
      else Some (Inr (), st))"
| "recovery 0 env move p goal entry st = None"
| "recovery (Suc n) env move p goal entry st =
     (case recovery_replan env move p goal entry st of
        Finished st' \<Rightarrow> Some (Inr (), st')
      | NeverReturns \<Rightarrow> None
      | Full path1 st' \<Rightarrow> perform n env path1 goal (entry + 1) st'
      | Interim path1 newGoal rest st' \<Rightarrow>
          (case perform n env path1 newGoal (entry + 1) st' of
             None \<Rightarrow> None
           | Some (Inl e, st'') \<Rightarrow> Some (Inl e, st'')
           | Some (Inr u, st'') \<Rightarrow> perform n env rest goal 0 (emit (ExitedRecovery entry) st'')))"

subsection \<open>Facts about arrays\<close>

lemma indexOf_from_ge: "a \<in> set xs \<Longrightarrow> i \<le> indexOf_from xs a i \<and> indexOf_from xs a i < i + int (length xs)"
proof (induction xs arbitrary: i)
  case Nil
  then show ?case by simp
next
  case (Cons x xs)
  show ?case
  proof (cases "x = a")
    case True
    then show ?thesis by simp
  next
    case False
    with Cons.prems have "a \<in> set xs" by simp
    from Cons.IH [OF this, of "i + 1"] False show ?thesis by simp
  qed
qed

lemma indexOf_from_notin: "a \<notin> set xs \<Longrightarrow> indexOf_from xs a i = - 1"
  by (induction xs arbitrary: i) auto

lemma indexOf_minus_one: "indexOf xs a = - 1 \<longleftrightarrow> a \<notin> set xs"
  using indexOf_from_ge [of a xs 0] indexOf_from_notin [of a xs 0]
  by (auto simp: indexOf_def)

lemma indexOf_range: "a \<in> set xs \<Longrightarrow> 0 \<le> indexOf xs a \<and> indexOf xs a < int (length xs)"
  using indexOf_from_ge [of a xs 0] by (simp add: indexOf_def)

lemma sort_key_hd_least:
  fixes f :: "'a \<Rightarrow> real"
  assumes "m \<in> set xs"
  shows "f (hd (sort_key f xs)) \<le> f m"
proof -
  have s: "sorted (map f (sort_key f xs))" by (rule sorted_sort_key)
  have ne: "sort_key f xs \<noteq> []" using assms by (metis empty_iff list.set(1) set_sort)
  have "m \<in> set (sort_key f xs)" using assms by simp
  then obtain i where i: "i < length (sort_key f xs)" "sort_key f xs ! i = m"
    by (meson in_set_conv_nth)
  have "map f (sort_key f xs) ! 0 \<le> map f (sort_key f xs) ! i"
    using s i(1) by (intro sorted_nth_mono) auto
  moreover have "0 < length xs" using assms by (cases xs) auto
  ultimately show ?thesis using i ne by (simp add: hd_conv_nth)
qed

subsection \<open>The tick ceiling of the alignment\<close>

fun alignPolls :: "event list \<Rightarrow> nat" where
  "alignPolls [] = 0"
| "alignPolls (Align m k # evs) = Suc (alignPolls evs)"
| "alignPolls (ev # evs) = alignPolls evs"

lemma alignPolls_append: "alignPolls (xs @ ys) = alignPolls xs + alignPolls ys"
  by (induction xs rule: alignPolls.induct) auto

lemma check_called [simp]: "check (called env ev st) = check st"
  by (simp add: check_def called_def)

lemma check_emit [simp]: "check (emit ev st) = check st"
  by (simp add: check_def emit_def)

lemma check_clock [simp]: "check (st\<lparr>clock := c\<rparr>) = check st"
  by (simp add: check_def)

lemma check_controlsEngaged [simp]: "check (st\<lparr>controlsEngaged := b\<rparr>) = check st"
  by (simp add: check_def)

lemma events_called [simp]: "events (called env ev st) = events st @ [ev]"
  by (simp add: called_def)

lemma events_emit [simp]: "events (emit ev st) = events st @ [ev]"
  by (simp add: emit_def)

lemma events_observed [simp]: "events (observed ev st) = events st @ [ev]"
  by (simp add: observed_def)

lemma waitForTicks_quiet:
  "interrupts env (clock st) = [] \<Longrightarrow>
   waitForTicks env st =
     (emit WaitForTicks st)\<lparr>clock := Suc (clock st),
        controlsEngaged := (controlsEngaged st \<or> pressed env (clock st))\<rparr>"
  by (simp add: waitForTicks_def)

lemma fold_interrupt_events_mono:
  "set (events st) \<subseteq> set (events (fold interrupt cs st))"
proof (induction cs arbitrary: st)
  case Nil
  show ?case by simp
next
  case (Cons c cs)
  have "set (events st) \<subseteq> set (events (interrupt c st))"
    by (cases c) auto
  with Cons [of "interrupt c st"] show ?case by auto
qed

lemma waitForTicks_events_mono: "set (events st) \<subseteq> set (events (waitForTicks env st))"
  using fold_interrupt_events_mono [of "emit WaitForTicks st" "interrupts env (clock st)"]
  by (auto simp: waitForTicks_def)

lemma perTick_loop_events_mono:
  "set (events st) \<subseteq> set (events (snd (perTick_loop env move currentIndex a tickCount st)))"
proof (induction env move currentIndex a tickCount st rule: perTick_loop.induct)
  case (1 env move currentIndex a tickCount st)
  show ?case
  proof (cases "falsy a \<and> tickCount < 999")
    case False
    then show ?thesis by (subst perTick_loop.simps) auto
  next
    case True
    note go = this
    show ?thesis
    proof (cases "check st")
      case (Some e)
      with go show ?thesis by (subst perTick_loop.simps) auto
    next
      case None
      show ?thesis
      proof (cases "performPerTick env (clock (waitForTicks env st)) move tickCount currentIndex")
        case (Inl e)
        with go None show ?thesis
          using waitForTicks_events_mono [of st env]
          by (subst perTick_loop.simps) auto
      next
        case (Inr a')
        from "1.IH" [OF go None Inr]
        have "set (events (called env (PerformPerTick move tickCount currentIndex) (waitForTicks env st)))
            \<subseteq> set (events (snd (perTick_loop env move currentIndex a' (Suc tickCount)
                (called env (PerformPerTick move tickCount currentIndex) (waitForTicks env st)))))" .
        with go None Inr show ?thesis
          using waitForTicks_events_mono [of st env]
          by (subst perTick_loop.simps) auto
      qed
    qed
  qed
qed

lemma align_loop_ceiling:
  assumes "\<forall>t k. k < 999 \<longrightarrow> align env t move k = Inr False"
    and "\<forall>t. interrupts env t = []"
    and "check st = None"
    and "tickCount < 999"
  shows "fst (align_loop env move tickCount st) = Inr ()
       \<and> check (snd (align_loop env move tickCount st)) = None
       \<and> alignPolls (events (snd (align_loop env move tickCount st)))
           = alignPolls (events st) + (999 - tickCount)"
  using assms(3,4)
proof (induction "998 - tickCount" arbitrary: tickCount st)
  case 0
  then have t: "tickCount = 998" by simp
  from assms(1) have a: "align env (clock st) move 998 = Inr False" by simp
  show ?case
    unfolding t using a "0.prems"(1)
    by (subst (1 2 3) align_loop.simps) (simp add: alignPolls_append)
next
  case (Suc d)
  then have lt: "Suc tickCount < 999" by simp
  from assms(1) lt have a: "align env (clock st) move tickCount = Inr False" by simp
  let ?st1 = "called env (Align move tickCount) st"
  have w: "waitForTicks env ?st1 =
      (emit WaitForTicks ?st1)\<lparr>clock := Suc (clock ?st1),
         controlsEngaged := (controlsEngaged ?st1 \<or> pressed env (clock ?st1))\<rparr>"
    using assms(2) by (simp add: waitForTicks_quiet)
  have c1: "check (waitForTicks env ?st1) = None"
    using Suc.prems(1) unfolding w by simp
  have step: "align_loop env move tickCount st
      = align_loop env move (Suc tickCount) (waitForTicks env ?st1)"
    using a lt Suc.prems(1) by (subst align_loop.simps) simp
  have d: "d = 998 - Suc tickCount" using Suc.hyps(2) by simp
  from Suc.hyps(1) [OF d c1 lt]
  show ?case
    unfolding step w using lt by (simp add: alignPolls_append)
qed

lemma executeMove_after_align:
  assumes "align_loop env move 0 st = (Inr (), st1)"
  shows "PerformInit move currentIndex \<in> set (events (snd (executeMove env move currentIndex st)))"
proof -
  let ?st2 = "called env (PerformInit move currentIndex) st1"
  let ?st3 = "called env (PerformPerTick move 0 currentIndex) ?st2"
  have in2: "PerformInit move currentIndex \<in> set (events ?st2)" by simp
  have in3: "PerformInit move currentIndex \<in> set (events ?st3)" by simp
  have loop: "PerformInit move currentIndex
      \<in> set (events (snd (perTick_loop env move currentIndex a 1 ?st3)))" for a
    using perTick_loop_events_mono [of ?st3 env move currentIndex a 1] in3 by blast
  show ?thesis
    using assms in2 in3 loop
    by (auto simp: executeMove_def Let_def split: option.splits sum.splits)
qed

subsection \<open>The alignment ceiling does not fail a move\<close>

text \<open>
  Claim C3, as amended. When the alignment of a move never succeeds within the tick
  ceiling and no abort or reset arrives, \<^verbatim>\<open>align\<close> is polled 999 times and the loop ends
  without a failure: the executor goes on to the initialization of the move, and, when
  that does not throw, to its per-tick phase.
\<close>

theorem executeMove_align_ceiling:
  assumes "\<forall>t k. k < 999 \<longrightarrow> align env t move k = Inr False"
    and "\<forall>t. interrupts env t = []"
    and "check st = None"
  shows "fst (align_loop env move 0 st) = Inr ()
       \<and> alignPolls (events (snd (align_loop env move 0 st))) = alignPolls (events st) + 999
       \<and> PerformInit move currentIndex
            \<in> set (events (snd (executeMove env move currentIndex st)))
       \<and> ((\<forall>t. performInit env t move currentIndex = None)
            \<longrightarrow> PerformPerTick move 0 currentIndex
                  \<in> set (events (snd (executeMove env move currentIndex st))))"
proof -
  obtain r st1 where al: "align_loop env move 0 st = (r, st1)"
    by (cases "align_loop env move 0 st")
  from align_loop_ceiling [OF assms, of 0] al
  have r: "r = Inr ()" and c1: "check st1 = None"
    and polls: "alignPolls (events st1) = alignPolls (events st) + 999"
    by simp_all
  from al r have al': "align_loop env move 0 st = (Inr (), st1)" by simp
  have init: "PerformInit move currentIndex
      \<in> set (events (snd (executeMove env move currentIndex st)))"
    by (rule executeMove_after_align [OF al'])
  have tick: "PerformPerTick move 0 currentIndex
      \<in> set (events (snd (executeMove env move currentIndex st)))"
    if "\<forall>t. performInit env t move currentIndex = None"
  proof -
    let ?st2 = "called env (PerformInit move currentIndex) st1"
    let ?st3 = "called env (PerformPerTick move 0 currentIndex) ?st2"
    have in3: "PerformPerTick move 0 currentIndex \<in> set (events ?st3)" by simp
    have loop: "PerformPerTick move 0 currentIndex
        \<in> set (events (snd (perTick_loop env move currentIndex a 1 ?st3)))" for a
      using perTick_loop_events_mono [of ?st3 env move currentIndex a 1] in3 by blast
    show ?thesis
      using al' that c1 in3 loop
      by (auto simp: executeMove_def Let_def split: option.splits sum.splits)
  qed
  from al' polls init tick show ?thesis by simp
qed

text \<open>
  A pathfinder at rest, and an environment whose executors never align but complete a
  move at its first tick.
\<close>

definition idle :: pathfinder where
  "idle = \<lparr>clock = 0, events = [], controlsEngaged = False, abortCalculation = False,
     userAborted = False, resetReason = None\<rparr>"

definition stuck_env :: environment where
  "stuck_env =
     \<lparr>executors = (\<lambda>p. True),
      isAlreadyCompleted = (\<lambda>t m. False),
      align = (\<lambda>t m k. Inr False),
      performInit = (\<lambda>t m i. None),
      performPerTick = (\<lambda>t m k i. Inr (ABool True)),
      interrupts = (\<lambda>t. []),
      botPosition = (\<lambda>t. Vec3 0 64 0),
      search = (\<lambda>t pos g. Some None),
      optimize = (\<lambda>t ms. ms),
      pressed = (\<lambda>t. False)\<rparr>"

definition one_move_path :: "(Move list, unit) Path" where
  "one_move_path = \<lparr>status = Success, cost = 1, calcTime = 0, visitedNodes = 1,
     generatedNodes = 1, path = [bridge_move], pathContext = ()\<rparr>"

lemma stuck_env_align_loop:
  "fst (align_loop stuck_env bridge_move 0 st0) = Inr ()
   \<and> (check st0 = None \<longrightarrow> check (snd (align_loop stuck_env bridge_move 0 st0)) = None)"
  if "check st0 = None"
  using align_loop_ceiling [of stuck_env bridge_move st0 0] that
  by (simp add: stuck_env_def)

theorem executeMove_align_ceiling_witness:
  "alignPolls (events (snd (align_loop stuck_env bridge_move 0 idle))) = 999
   \<and> PerformInit bridge_move 0 \<in> set (events (snd (executeMove stuck_env bridge_move 0 idle)))
   \<and> PerformPerTick bridge_move 0 0 \<in> set (events (snd (executeMove stuck_env bridge_move 0 idle)))"
  using executeMove_align_ceiling [of stuck_env bridge_move idle 0]
  by (simp add: stuck_env_def idle_def check_def)

text \<open>
  The claim as stated fails: the move of \<open>one_move_path\<close> never aligns, yet it is
  initialized, its per-tick phase completes it, and \<^verbatim>\<open>perform\<close> returns normally.
\<close>

theorem align_ceiling_enters_phases:
  "fst (executeMove stuck_env bridge_move 0 idle) = Inr (ABool True)
   \<and> PerformInit bridge_move 0 \<in> set (events (snd (executeMove stuck_env bridge_move 0 idle)))
   \<and> map_option fst (perform 2 stuck_env one_move_path (Goal 0) 0 idle) = Some (Inr ())"
proof -
  have c0: "check (observed (IsAlreadyCompleted bridge_move) (cleanupBot stuck_env idle)) = None"
    by (simp add: check_def observed_def cleanupBot_def emit_def idle_def)
  have ci: "check idle = None"
    by (simp add: check_def idle_def)
  have ex: "fst (executeMove stuck_env bridge_move 0 st0) = Inr (ABool True)"
    if c: "check st0 = None" for st0
  proof -
    obtain r st1 where al: "align_loop stuck_env bridge_move 0 st0 = (r, st1)"
      by (cases "align_loop stuck_env bridge_move 0 st0")
    from stuck_env_align_loop [OF c] al c have r: "r = Inr ()" and c1: "check st1 = None"
      by simp_all
    have p: "performInit stuck_env t m i = None"
      "performPerTick stuck_env t m k i = Inr (ABool True)" for t m k i
      by (simp_all add: stuck_env_def)
    show ?thesis
      using al r c1 p
      by (simp add: executeMove_def Let_def perTick_loop.simps)
  qed
  obtain r st1 where al: "align_loop stuck_env bridge_move 0 idle = (r, st1)"
    by (cases "align_loop stuck_env bridge_move 0 idle")
  with stuck_env_align_loop [OF ci] have al': "align_loop stuck_env bridge_move 0 idle = (Inr (), st1)"
    by simp
  have init: "PerformInit bridge_move 0 \<in> set (events (snd (executeMove stuck_env bridge_move 0 idle)))"
    by (rule executeMove_after_align [OF al'])
  obtain a st2 where e: "executeMove stuck_env bridge_move 0
      (observed (IsAlreadyCompleted bridge_move) (cleanupBot stuck_env idle)) = (a, st2)"
    by (cases "executeMove stuck_env bridge_move 0
      (observed (IsAlreadyCompleted bridge_move) (cleanupBot stuck_env idle))")
  with ex [OF c0] have a: "a = Inr (ABool True)" by simp
  have step: "perform_step stuck_env one_move_path (Goal 0) 0 idle = Continue 1 st2"
    using e a
    by (simp add: perform_step_def nth_opt_def one_move_path_def stuck_env_def Let_def)
  have "perform 2 stuck_env one_move_path (Goal 0) 0 idle = Some (Inr (), st2)"
    using step
    by (simp add: numeral_2_eq_2 one_move_path_def)
  with ex [OF ci] init show ?thesis by simp
qed

subsection \<open>The trace of recoveries\<close>

fun recoveryCounters :: "event list \<Rightarrow> nat list" where
  "recoveryCounters [] = []"
| "recoveryCounters (EnteredRecovery e # evs) = e # recoveryCounters evs"
| "recoveryCounters (ev # evs) = recoveryCounters evs"



lemma recoveryCounters_append [simp]:
  "recoveryCounters (xs @ ys) = recoveryCounters xs @ recoveryCounters ys"
  by (induction xs rule: recoveryCounters.induct) auto



lemma rc_fold_interrupt [simp]:
  "recoveryCounters (events (fold interrupt cs st)) = recoveryCounters (events st)"
proof (induction cs arbitrary: st)
  case Nil
  show ?case by simp
next
  case (Cons c cs)
  have "recoveryCounters (events (interrupt c st)) = recoveryCounters (events st)"
    by (cases c) auto
  with Cons [of "interrupt c st"] show ?case by simp
qed

lemma rc_waitForTicks [simp]:
  "recoveryCounters (events (waitForTicks env st)) = recoveryCounters (events st)"
  by (simp add: waitForTicks_def)




lemma rc_cleanupBot [simp]:
  "recoveryCounters (events (cleanupBot env st)) = recoveryCounters (events st)"
  by (simp add: cleanupBot_def)


lemma rc_after_search [simp]:
  "recoveryCounters (events (after_search env pos g st)) = recoveryCounters (events st)"
  by (simp add: after_search_def emit_def)

lemma recoveryPlan_no: "recoveryPlan moves move pos goal entry = Some pl \<Longrightarrow> 0 < entry \<Longrightarrow> plan_no pl"
  by (auto simp: recoveryPlan_def Let_def split: if_splits)

lemma recovery_replan_outcome:
  "(recovery_replan env move p goal entry st = Finished st'
      \<longrightarrow> recoveryCounters (events st') = recoveryCounters (events st) @ [entry])
   \<and> (recovery_replan env move p goal entry st = Full path1 st'
      \<longrightarrow> recoveryCounters (events st') = recoveryCounters (events st) @ [entry])
   \<and> (recovery_replan env move p goal entry st = Interim path1 g rest st'
      \<longrightarrow> recoveryCounters (events st') = recoveryCounters (events st) @ [entry] \<and> entry = 0)"
proof -
  let ?st1 = "recovery_enter env entry st"
  let ?pos = "botPosition env (clock ?st1)"
  have r1: "recoveryCounters (events ?st1) = recoveryCounters (events st) @ [entry]"
    by (simp add: recovery_enter_def cleanupClient_def cleanupBot_def emit_def)
  show ?thesis
  proof (cases "recoveryPlan (path p) move ?pos goal entry")
    case None
    then show ?thesis using r1 by (auto simp: recovery_replan_def Let_def)
  next
    case (Some pl)
    note plan = this
    let ?st2 = "after_search env ?pos (plan_newGoal pl) ?st1"
    have r2: "recoveryCounters (events ?st2) = recoveryCounters (events st) @ [entry]"
      using r1 by simp
    show ?thesis
    proof (cases "search env (clock ?st1) ?pos (plan_newGoal pl)")
      case None
      with plan show ?thesis by (auto simp: recovery_replan_def Let_def)
    next
      case (Some found)
      note s = this
      show ?thesis
      proof (cases found)
        case None
        with plan s r2 show ?thesis by (auto simp: recovery_replan_def Let_def)
      next
        case (Some p1)
        have n: "\<not> plan_no pl \<Longrightarrow> entry = 0"
          using recoveryPlan_no [OF plan] by auto
        from plan s Some r2 n show ?thesis
          by (auto simp: recovery_replan_def Let_def postProcess_path_def)
      qed
    qed
  qed
qed


subsection \<open>The retry counter\<close>


text \<open>
  An environment where every alignment throws a \<^verbatim>\<open>CancelError\<close> and every search finds
  \<open>one_move_path\<close> again; planned moves along the x axis; and an environment where the
  alignment of a planned move throws a \<^verbatim>\<open>CancelError\<close>, every search finds a detour of one
  move, and the moves of a detour are complete at once.
\<close>

definition failing_env :: environment where
  "failing_env =
     \<lparr>executors = (\<lambda>p. True),
      isAlreadyCompleted = (\<lambda>t m. False),
      align = (\<lambda>t m k. Inl CancelError),
      performInit = (\<lambda>t m i. None),
      performPerTick = (\<lambda>t m k i. Inr (ABool True)),
      interrupts = (\<lambda>t. []),
      botPosition = (\<lambda>t. Vec3 0 64 0),
      search = (\<lambda>t pos g. Some (Some one_move_path)),
      optimize = (\<lambda>t ms. ms),
      pressed = (\<lambda>t. False)\<rparr>"

definition planned :: "nat \<Rightarrow> Move" where
  "planned i = \<lparr>ref = i, moveType = ForwardMove, vec = Vec3 (real i) 64 0,
     entryPos = Vec3 (real i) 64 0, exitPos = Vec3 (real i + 1) 64 0, toPlace = [], toBreak = []\<rparr>"

definition path_of :: "Move list \<Rightarrow> (Move list, unit) Path" where
  "path_of ms = \<lparr>status = Success, cost = real (length ms), calcTime = 0, visitedNodes = 0,
     generatedNodes = 0, path = ms, pathContext = ()\<rparr>"

definition dropping_env :: environment where
  "dropping_env =
     \<lparr>executors = (\<lambda>p. True),
      isAlreadyCompleted = (\<lambda>t m. 100 \<le> ref m),
      align = (\<lambda>t m k. Inl CancelError),
      performInit = (\<lambda>t m i. None),
      performPerTick = (\<lambda>t m k i. Inr (ABool True)),
      interrupts = (\<lambda>t. []),
      botPosition = (\<lambda>t. Vec3 0 64 0),
      search = (\<lambda>t pos g. Some (Some (path_of [planned 100]))),
      optimize = (\<lambda>t ms. ms),
      pressed = (\<lambda>t. False)\<rparr>"


text \<open>Unfolding a run whose fuel is a numeral.\<close>

lemma perform_loop_numeral:
  "perform_loop (numeral k) env p goal entry currentIndex st =
     (if currentIndex < int (length (path p)) then
        (case perform_step env p goal currentIndex st of
           Return r \<Rightarrow> Some r
         | Continue i st' \<Rightarrow> perform_loop (pred_numeral k) env p goal entry i st'
         | Recover move st' \<Rightarrow> recovery (pred_numeral k) env move p goal entry st')
      else Some (Inr (), st))"
  by (simp add: numeral_eq_Suc)

lemma recovery_numeral:
  "recovery (numeral k) env move p goal entry st =
     (case recovery_replan env move p goal entry st of
        Finished st' \<Rightarrow> Some (Inr (), st')
      | NeverReturns \<Rightarrow> None
      | Full path1 st' \<Rightarrow> perform (pred_numeral k) env path1 goal (entry + 1) st'
      | Interim path1 newGoal rest st' \<Rightarrow>
          (case perform (pred_numeral k) env path1 newGoal (entry + 1) st' of
             None \<Rightarrow> None
           | Some (Inl e, st'') \<Rightarrow> Some (Inl e, st'')
           | Some (Inr u, st'') \<Rightarrow>
               perform (pred_numeral k) env rest goal 0 (emit (ExitedRecovery entry) st'')))"
  by (simp add: numeral_eq_Suc)

lemmas run_simps = perform_loop_numeral recovery_numeral recovery_replan_def recovery_enter_def recoveryPlan_def
     perform_step_def executeMove_def align_loop.simps nth_opt_def indexOf_def Let_def cleanupBot_def cleanupClient_def
     emit_def observed_def called_def after_search_def postProcess_path_def distanceTo_def idle_def



text \<open>
  Whether a control is pressed when the fatal failure is raised is decided by what ran
  since the last \<^verbatim>\<open>clearControlStates\<close>. In \<open>pressing_env\<close> the task that \<^verbatim>\<open>align\<close> started
  presses a control while \<^verbatim>\<open>recovery\<close> awaits the search (the consultations 4, 10, 16, ...
  of this run), after \<^verbatim>\<open>recovery\<close> has cleared the controls: the run ends with the fatal
  failure and a control pressed.
\<close>

definition pressing_env :: environment where
  "pressing_env = failing_env\<lparr>pressed := (\<lambda>t. t mod 6 = 4)\<rparr>"

lemma fatal_failure_with_control_pressed:
  "map_option (\<lambda>(r, st). (r, controlsEngaged st, recoveryCounters (events st)))
     (perform 30 pressing_env one_move_path (Goal 0) 0 idle)
   = Some (Inl TooManyFailures, True, [0, 1, 2, 3, 4, 5, 6, 7, 8, 9, 10])"
  by (simp add: run_simps pressing_env_def failing_env_def one_move_path_def bridge_move_def)




subsection \<open>What recovery replans and resumes\<close>

text \<open>
  The position of the bot that \<^verbatim>\<open>recovery\<close> reads (\<^verbatim>\<open>const pos = this.bot.entity.position\<close>)
  and the key of its sort, the distance of a move's entry position from there.
\<close>

abbreviation recovery_pos :: "environment \<Rightarrow> nat \<Rightarrow> pathfinder \<Rightarrow> vec3" where
  "recovery_pos env entry st \<equiv> botPosition env (clock (recovery_enter env entry st))"

abbreviation entry_distance :: "vec3 \<Rightarrow> Move \<Rightarrow> real" where
  "entry_distance pos \<equiv> (\<lambda>a. distanceTo (entryPos a) pos)"

lemma nth_opt_mem: "nth_opt xs i = Some m \<Longrightarrow> m \<in> set xs"
  by (auto simp: nth_opt_def split: if_splits)

lemma nth_opt_0_hd: "xs \<noteq> [] \<Longrightarrow> nth_opt xs 0 = Some (hd xs)"
  by (cases xs) (simp_all add: nth_opt_def)

lemma indexOf_hd: "xs \<noteq> [] \<Longrightarrow> indexOf xs (hd xs) = 0"
  by (cases xs) (simp_all add: indexOf_def)

lemma indexOf_0_hd: "indexOf xs a = 0 \<Longrightarrow> xs \<noteq> [] \<and> hd xs = a"
proof (cases xs)
  case Nil
  assume "indexOf xs a = 0"
  with Nil show ?thesis by (simp add: indexOf_def)
next
  case (Cons x ys)
  assume h: "indexOf xs a = 0"
  show ?thesis
  proof (cases "x = a")
    case True
    with Cons show ?thesis by simp
  next
    case False
    with h Cons have i: "indexOf_from ys a 1 = 0" by (simp add: indexOf_def)
    show ?thesis
    proof (cases "a \<in> set ys")
      case True
      from indexOf_from_ge [OF True, of 1] i show ?thesis by simp
    next
      case False
      from indexOf_from_notin [OF False, of 1] i show ?thesis by simp
    qed
  qed
qed

lemma recoveryPlan_absent: "indexOf moves move = - 1 \<Longrightarrow> recoveryPlan moves move pos goal entry = None"
  by (simp add: recoveryPlan_def)

lemma recoveryPlan_present:
  assumes "indexOf moves move \<noteq> - 1"
  shows "\<exists>pl. recoveryPlan moves move pos goal entry = Some pl
     \<and> plan_ind pl = indexOf moves move
     \<and> plan_sorted pl = sort_key (entry_distance pos) moves
     \<and> (0 < entry \<longrightarrow> plan_no pl)
     \<and> (0 < indexOf moves move \<longrightarrow> plan_no pl)
     \<and> (plan_no pl \<longrightarrow> plan_newGoal pl = goal)"
proof -
  let ?sorted = "sort_key (entry_distance pos) moves"
  from assms have mem: "move \<in> set moves" by (simp add: indexOf_minus_one)
  then have ne: "?sorted \<noteq> []" by (metis empty_iff list.set(1) set_sort)
  have first: "nth_opt ?sorted 0 = Some (hd ?sorted)" by (rule nth_opt_0_hd [OF ne])
  have zero: "indexOf ?sorted (hd ?sorted) = 0" by (rule indexOf_hd [OF ne])
  show ?thesis
    using assms first zero
    by (auto simp: recoveryPlan_def Let_def split: option.splits)
qed

lemma recoveryPlan_in_order:
  assumes "indexOf moves move = 0" and "sorted (map (entry_distance pos) moves)"
  shows "recoveryPlan moves move pos goal 0 =
     Some \<lparr>plan_sorted = moves, plan_ind = 0, plan_nextMove = nth_opt moves 1, plan_no = False,
           plan_newGoal = (case nth_opt moves 1 of None \<Rightarrow> goal | Some m \<Rightarrow> GoalBlock (vec m))\<rparr>"
proof -
  from assms(2) have s: "sort_key (entry_distance pos) moves = moves"
    by (rule sort_key_id_if_sorted)
  from indexOf_0_hd [OF assms(1)] have ne: "moves \<noteq> []" by simp
  have first: "nth_opt moves 0 = Some (hd moves)" by (rule nth_opt_0_hd [OF ne])
  have zero: "indexOf moves (hd moves) = 0" by (rule indexOf_hd [OF ne])
  show ?thesis
    using assms(1) s first zero
    by (simp add: recoveryPlan_def Let_def split: option.splits)
qed

lemma events_after_search:
  "GetPathFromToRaw pos g \<in> set (events (after_search env pos g st))"
  using fold_interrupt_events_mono
    [of "emit (GetPathFromToRaw pos g) (st\<lparr>abortCalculation := False, resetReason := None\<rparr>)"
        "interrupts env (clock st)"]
  by (auto simp: after_search_def)

lemma events_postProcess_path:
  "GetPathFromToRaw pos g
     \<in> set (events (snd (postProcess_path env found (after_search env pos g st))))"
  using events_after_search [of pos g env st] by (simp add: postProcess_path_def)

lemma drop_one_tl: "drop (Suc 0) xs = tl xs"
  by (cases xs) simp_all

text \<open>
  Claim C1, as amended. When the failed move is not in the path, \<^verbatim>\<open>recovery\<close> ends without
  a search. Otherwise the move it selects is a planned move whose entry position is nearest
  the bot. When the counter is above 0, or the selected move lies at an earlier index of
  the path than the failed move, the new goal is the original goal, and after a search that
  succeeds the new path is performed with the counter increased by one; the old path is
  not resumed. An interim goal is used only with the counter 0. With the counter 0, the
  planned moves in order of their distance from the bot and the failed move the first of
  them (so that it is the selected move), the interim goal is the block of the move after
  the failed one (the original goal when there is none); after a search that succeeds the
  new path is performed with the counter 1, and when that returns normally the old path is
  resumed just past the failed move, with the counter 0. Nothing is said of the remaining
  case: the counter 0, the selected move not earlier than the failed one, and the planned
  moves not in order of distance.
\<close>

theorem recovery_by_design:
  "(indexOf (path p) move = - 1 \<longrightarrow>
      recovery (Suc n) env move p goal entry st = Some (Inr (), recovery_enter env entry st))
   \<and> (indexOf (path p) move \<noteq> - 1 \<longrightarrow>
      (\<exists>pl. recoveryPlan (path p) move (recovery_pos env entry st) goal entry = Some pl
         \<and> hd (plan_sorted pl) \<in> set (path p)
         \<and> (\<forall>m \<in> set (path p).
               entry_distance (recovery_pos env entry st) (hd (plan_sorted pl))
                 \<le> entry_distance (recovery_pos env entry st) m)
         \<and> (0 < entry \<or> indexOf (path p) (hd (plan_sorted pl)) < indexOf (path p) move
              \<longrightarrow> plan_no pl \<and> plan_newGoal pl = goal)
         \<and> (plan_no pl \<and> search env (clock (recovery_enter env entry st))
                            (recovery_pos env entry st) goal = Some (Some found)
              \<longrightarrow> recovery_replan env move p goal entry st =
                    Full (fst (postProcess_path env found
                            (after_search env (recovery_pos env entry st) goal
                               (recovery_enter env entry st))))
                      (emit (ExitedRecovery entry)
                         (snd (postProcess_path env found
                            (after_search env (recovery_pos env entry st) goal
                               (recovery_enter env entry st)))))
                  \<and> GetPathFromToRaw (recovery_pos env entry st) goal
                      \<in> set (events (snd (postProcess_path env found
                            (after_search env (recovery_pos env entry st) goal
                               (recovery_enter env entry st)))))
                  \<and> recovery (Suc n) env move p goal entry st =
                      perform n env
                        (fst (postProcess_path env found
                            (after_search env (recovery_pos env entry st) goal
                               (recovery_enter env entry st))))
                        goal (entry + 1)
                        (emit (ExitedRecovery entry)
                           (snd (postProcess_path env found
                              (after_search env (recovery_pos env entry st) goal
                                 (recovery_enter env entry st))))))))
   \<and> (recovery_replan env move p goal entry st = Interim path1 g rest st' \<longrightarrow> entry = 0)
   \<and> (entry = 0 \<and> indexOf (path p) move = 0
        \<and> sorted (map (entry_distance (recovery_pos env entry st)) (path p))
        \<and> g = (case nth_opt (path p) 1 of None \<Rightarrow> goal | Some m \<Rightarrow> GoalBlock (vec m))
        \<and> search env (clock (recovery_enter env entry st)) (recovery_pos env entry st) g
            = Some (Some found)
        \<and> postProcess_path env found
            (after_search env (recovery_pos env entry st) g (recovery_enter env entry st))
            = (path1, st')
      \<longrightarrow> hd (path p) = move
        \<and> recovery_replan env move p goal entry st = Interim path1 g (p\<lparr>path := tl (path p)\<rparr>) st'
        \<and> GetPathFromToRaw (recovery_pos env entry st) g \<in> set (events st')
        \<and> recovery (Suc n) env move p goal entry st =
            (case perform n env path1 g 1 st' of
               None \<Rightarrow> None
             | Some (Inl e, s) \<Rightarrow> Some (Inl e, s)
             | Some (Inr u, s) \<Rightarrow>
                 perform n env (p\<lparr>path := tl (path p)\<rparr>) goal 0 (emit (ExitedRecovery 0) s)))"
proof -
  let ?st1 = "recovery_enter env entry st"
  let ?pos = "botPosition env (clock ?st1)"
  let ?f = "entry_distance ?pos"
  have absent: "recovery (Suc n) env move p goal entry st = Some (Inr (), ?st1)"
    if "indexOf (path p) move = - 1"
    using recoveryPlan_absent [OF that] by (simp add: recovery_replan_def Let_def)
  have present: "\<exists>pl. recoveryPlan (path p) move ?pos goal entry = Some pl
         \<and> hd (plan_sorted pl) \<in> set (path p)
         \<and> (\<forall>m \<in> set (path p). ?f (hd (plan_sorted pl)) \<le> ?f m)
         \<and> (0 < entry \<or> indexOf (path p) (hd (plan_sorted pl)) < indexOf (path p) move
              \<longrightarrow> plan_no pl \<and> plan_newGoal pl = goal)
         \<and> (plan_no pl \<and> search env (clock ?st1) ?pos goal = Some (Some found)
              \<longrightarrow> recovery_replan env move p goal entry st =
                    Full (fst (postProcess_path env found (after_search env ?pos goal ?st1)))
                      (emit (ExitedRecovery entry)
                         (snd (postProcess_path env found (after_search env ?pos goal ?st1))))
                  \<and> GetPathFromToRaw ?pos goal
                      \<in> set (events (snd (postProcess_path env found
                            (after_search env ?pos goal ?st1))))
                  \<and> recovery (Suc n) env move p goal entry st =
                      perform n env
                        (fst (postProcess_path env found (after_search env ?pos goal ?st1)))
                        goal (entry + 1)
                        (emit (ExitedRecovery entry)
                           (snd (postProcess_path env found (after_search env ?pos goal ?st1)))))"
    if h: "indexOf (path p) move \<noteq> - 1"
  proof -
    from recoveryPlan_present [OF h, of ?pos goal entry] obtain pl where
      pl: "recoveryPlan (path p) move ?pos goal entry = Some pl"
        "plan_sorted pl = sort_key ?f (path p)"
        "0 < entry \<longrightarrow> plan_no pl" "0 < indexOf (path p) move \<longrightarrow> plan_no pl"
        "plan_no pl \<longrightarrow> plan_newGoal pl = goal"
      by blast
    from h have mem: "move \<in> set (path p)" by (simp add: indexOf_minus_one)
    then have ne: "sort_key ?f (path p) \<noteq> []" by (metis empty_iff list.set(1) set_sort)
    have hdm: "hd (plan_sorted pl) \<in> set (path p)"
      unfolding pl(2) using ne by (metis hd_in_set set_sort)
    have least: "\<forall>m \<in> set (path p). ?f (hd (plan_sorted pl)) \<le> ?f m"
      unfolding pl(2) using sort_key_hd_least [of _ "path p" ?f] by blast
    have earlier: "0 < indexOf (path p) move"
      if "indexOf (path p) (hd (plan_sorted pl)) < indexOf (path p) move"
      using that indexOf_range [OF hdm] by simp
    have no: "plan_no pl \<and> plan_newGoal pl = goal"
      if "0 < entry \<or> indexOf (path p) (hd (plan_sorted pl)) < indexOf (path p) move"
      using that earlier pl(3,4,5) by blast
    have full: "recovery_replan env move p goal entry st =
                    Full (fst (postProcess_path env found (after_search env ?pos goal ?st1)))
                      (emit (ExitedRecovery entry)
                         (snd (postProcess_path env found (after_search env ?pos goal ?st1))))"
      if "plan_no pl" "search env (clock ?st1) ?pos goal = Some (Some found)"
      using that pl(1,5)
      by (simp add: recovery_replan_def Let_def split: prod.splits)
    from full have run: "recovery (Suc n) env move p goal entry st =
                      perform n env
                        (fst (postProcess_path env found (after_search env ?pos goal ?st1)))
                        goal (entry + 1)
                        (emit (ExitedRecovery entry)
                           (snd (postProcess_path env found (after_search env ?pos goal ?st1))))"
      if "plan_no pl" "search env (clock ?st1) ?pos goal = Some (Some found)"
      using that by simp
    from pl(1) hdm least no full run events_postProcess_path [of ?pos goal env found ?st1]
    show ?thesis by blast
  qed
  have interim: "entry = 0"
    if "recovery_replan env move p goal entry st = Interim path1 g rest st'"
    using recovery_replan_outcome [where env = env and move = move and p = p and goal = goal
        and entry = entry and st = st and ?path1.0 = path1 and g = g and rest = rest and st' = st']
      that by simp
  have in_order: "hd (path p) = move
        \<and> recovery_replan env move p goal entry st = Interim path1 g (p\<lparr>path := tl (path p)\<rparr>) st'
        \<and> GetPathFromToRaw ?pos g \<in> set (events st')
        \<and> recovery (Suc n) env move p goal entry st =
            (case perform n env path1 g 1 st' of
               None \<Rightarrow> None
             | Some (Inl e, s) \<Rightarrow> Some (Inl e, s)
             | Some (Inr u, s) \<Rightarrow>
                 perform n env (p\<lparr>path := tl (path p)\<rparr>) goal 0 (emit (ExitedRecovery 0) s))"
    if e: "entry = 0" and i: "indexOf (path p) move = 0"
      and o: "sorted (map ?f (path p))"
      and g: "g = (case nth_opt (path p) 1 of None \<Rightarrow> goal | Some m \<Rightarrow> GoalBlock (vec m))"
      and s: "search env (clock ?st1) ?pos g = Some (Some found)"
      and pp: "postProcess_path env found (after_search env ?pos g ?st1) = (path1, st')"
  proof -
    from indexOf_0_hd [OF i] have first: "hd (path p) = move" by simp
    from recoveryPlan_in_order [OF i o, of goal]
    have pl: "recoveryPlan (path p) move ?pos goal entry =
       Some \<lparr>plan_sorted = path p, plan_ind = 0, plan_nextMove = nth_opt (path p) 1,
             plan_no = False, plan_newGoal = g\<rparr>"
      unfolding g e .
    have rr: "recovery_replan env move p goal entry st
        = Interim path1 g (p\<lparr>path := tl (path p)\<rparr>) st'"
      using pl s pp by (simp add: recovery_replan_def Let_def drop_one_tl)
    have ev: "GetPathFromToRaw ?pos g \<in> set (events st')"
      using events_postProcess_path [of ?pos g env found ?st1] pp by simp
    from rr e have "recovery (Suc n) env move p goal entry st =
            (case perform n env path1 g 1 st' of
               None \<Rightarrow> None
             | Some (Inl e, s) \<Rightarrow> Some (Inl e, s)
             | Some (Inr u, s) \<Rightarrow>
                 perform n env (p\<lparr>path := tl (path p)\<rparr>) goal 0 (emit (ExitedRecovery 0) s))"
      by simp
    with first rr ev show ?thesis by simp
  qed
  from absent present interim in_order show ?thesis by blast
qed

text \<open>
  A path of three moves along the x axis, the bot at the entry of the first one, which
  fails: with the counter 0 the interim goal is the block of the second move, and the
  second and third moves are resumed; with the counter 1 the new goal is the original goal.
\<close>

definition three_moves :: "(Move list, unit) Path" where
  "three_moves = path_of [planned 0, planned 1, planned 2]"

theorem recovery_by_design_witness:
  "(\<exists>st'. recovery_replan dropping_env (planned 0) three_moves (Goal 0) 0 idle
          = Interim (path_of [planned 100]) (GoalBlock (Vec3 1 64 0))
              (three_moves\<lparr>path := [planned 1, planned 2]\<rparr>) st'
     \<and> GetPathFromToRaw (Vec3 0 64 0) (GoalBlock (Vec3 1 64 0)) \<in> set (events st')
     \<and> recovery 1 dropping_env (planned 0) three_moves (Goal 0) 0 idle
         = (case perform 0 dropping_env (path_of [planned 100]) (GoalBlock (Vec3 1 64 0)) 1 st' of
              None \<Rightarrow> None
            | Some (Inl e, s) \<Rightarrow> Some (Inl e, s)
            | Some (Inr u, s) \<Rightarrow>
                perform 0 dropping_env (three_moves\<lparr>path := [planned 1, planned 2]\<rparr>) (Goal 0) 0
                  (emit (ExitedRecovery 0) s)))
   \<and> (\<exists>st'. recovery_replan dropping_env (planned 0) three_moves (Goal 0) 1 idle
          = Full (path_of [planned 100]) st'
     \<and> GetPathFromToRaw (Vec3 0 64 0) (Goal 0) \<in> set (events st')
     \<and> recovery 1 dropping_env (planned 0) three_moves (Goal 0) 1 idle
         = perform 0 dropping_env (path_of [planned 100]) (Goal 0) 2 st')"
proof -
  let ?found = "path_of [planned 100]"
  let ?g = "GoalBlock (Vec3 1 64 0)"
  let ?rest = "three_moves\<lparr>path := [planned 1, planned 2]\<rparr>"
  let ?s0 = "snd (postProcess_path dropping_env ?found
     (after_search dropping_env (Vec3 0 64 0) ?g (recovery_enter dropping_env 0 idle)))"
  let ?s1 = "snd (postProcess_path dropping_env ?found
     (after_search dropping_env (Vec3 0 64 0) (Goal 0) (recovery_enter dropping_env 1 idle)))"
  have pos: "botPosition dropping_env t = Vec3 0 64 0" for t
    by (simp add: dropping_env_def)
  have srch: "search dropping_env t q gg = Some (Some ?found)" for t q gg
    by (simp add: dropping_env_def)
  have pp: "postProcess_path dropping_env ?found S
      = (?found, snd (postProcess_path dropping_env ?found S))" for S
    by (simp add: postProcess_path_def dropping_env_def path_of_def)
  have pp1: "fst (postProcess_path dropping_env ?found S) = ?found" for S
    by (simp add: postProcess_path_def dropping_env_def path_of_def)
  have idx: "indexOf (path three_moves) (planned 0) = 0"
    by (simp add: three_moves_def path_of_def indexOf_def)
  have ord: "sorted (map (entry_distance (Vec3 0 64 0)) (path three_moves))"
    by (simp add: three_moves_def path_of_def planned_def distanceTo_def)
  have g: "(case nth_opt (path three_moves) 1 of None \<Rightarrow> Goal 0 | Some m \<Rightarrow> GoalBlock (vec m)) = ?g"
    by (simp add: three_moves_def path_of_def planned_def nth_opt_def)
  have tl: "tl (path three_moves) = [planned 1, planned 2]"
    by (simp add: three_moves_def path_of_def)
  from recovery_by_design [where p = three_moves and move = "planned 0" and n = 0
      and env = dropping_env and goal = "Goal 0" and entry = 0 and st = idle
      and found = ?found and ?path1.0 = ?found and g = ?g and st' = ?s0]
    pos srch pp idx ord g
  have "recovery_replan dropping_env (planned 0) three_moves (Goal 0) 0 idle
          = Interim ?found ?g (three_moves\<lparr>path := tl (path three_moves)\<rparr>) ?s0
     \<and> GetPathFromToRaw (Vec3 0 64 0) ?g \<in> set (events ?s0)
     \<and> recovery 1 dropping_env (planned 0) three_moves (Goal 0) 0 idle
         = (case perform 0 dropping_env ?found ?g 1 ?s0 of
              None \<Rightarrow> None
            | Some (Inl e, s) \<Rightarrow> Some (Inl e, s)
            | Some (Inr u, s) \<Rightarrow>
                perform 0 dropping_env (three_moves\<lparr>path := tl (path three_moves)\<rparr>) (Goal 0) 0
                  (emit (ExitedRecovery 0) s))"
    by (simp del: recovery.simps perform.simps One_nat_def add: One_nat_def [symmetric])
  then have first: "recovery_replan dropping_env (planned 0) three_moves (Goal 0) 0 idle
          = Interim ?found ?g ?rest ?s0
     \<and> GetPathFromToRaw (Vec3 0 64 0) ?g \<in> set (events ?s0)
     \<and> recovery 1 dropping_env (planned 0) three_moves (Goal 0) 0 idle
         = (case perform 0 dropping_env ?found ?g 1 ?s0 of
              None \<Rightarrow> None
            | Some (Inl e, s) \<Rightarrow> Some (Inl e, s)
            | Some (Inr u, s) \<Rightarrow>
                perform 0 dropping_env ?rest (Goal 0) 0 (emit (ExitedRecovery 0) s))"
    unfolding tl .
  from recovery_by_design [where p = three_moves and move = "planned 0" and n = 0
      and env = dropping_env and goal = "Goal 0" and entry = 1 and st = idle
      and found = ?found]
    pos srch pp1 idx
  have second: "recovery_replan dropping_env (planned 0) three_moves (Goal 0) 1 idle
          = Full ?found (emit (ExitedRecovery 1) ?s1)
     \<and> GetPathFromToRaw (Vec3 0 64 0) (Goal 0) \<in> set (events (emit (ExitedRecovery 1) ?s1))
     \<and> recovery 1 dropping_env (planned 0) three_moves (Goal 0) 1 idle
         = perform 0 dropping_env ?found (Goal 0) 2 (emit (ExitedRecovery 1) ?s1)"
    by (auto simp del: recovery.simps perform.simps One_nat_def simp: One_nat_def [symmetric])
  from first second show ?thesis by blast
qed

text \<open>
  The claim as stated fails. The first of two moves fails where the bot stands, so the
  selected move is that move, not earlier in the path. With the counter 1 the new goal is
  the original goal, not an interim goal. With the counter 0 the interim goal is the block
  of the move after the failed one, not the block of the selected move.
\<close>

theorem recovery_goal_is_not_the_nearest_move:
  "map_option (hd \<circ> plan_sorted)
      (recoveryPlan [planned 0, planned 1] (planned 0) (Vec3 0 64 0) (Goal 0) 1) = Some (planned 0)
   \<and> indexOf [planned 0, planned 1] (planned 0) = 0
   \<and> map_option plan_newGoal
      (recoveryPlan [planned 0, planned 1] (planned 0) (Vec3 0 64 0) (Goal 0) 1) = Some (Goal 0)
   \<and> map_option (hd \<circ> plan_sorted)
      (recoveryPlan [planned 0, planned 1] (planned 0) (Vec3 0 64 0) (Goal 0) 0) = Some (planned 0)
   \<and> map_option plan_newGoal
      (recoveryPlan [planned 0, planned 1] (planned 0) (Vec3 0 64 0) (Goal 0) 0)
       = Some (GoalBlock (vec (planned 1)))
   \<and> GoalBlock (vec (planned 1)) \<noteq> GoalBlock (vec (planned 0))"
  by (simp add: recoveryPlan_def planned_def nth_opt_def indexOf_def Let_def distanceTo_def)

text \<open>
  Outside the cases of the theorem: the move at index 4 of ten fails with the counter 0,
  and the bot stands at the entry of the move at index 5. \<^verbatim>\<open>path.path.sort(...)\<close> has put
  that move at index 0 of the array when \<^verbatim>\<open>path.path.indexOf(nextMove) < ind\<close> is
  evaluated, \<^verbatim>\<open>ind\<close> being 4: the new goal is the original goal, and the old path is not
  resumed.
\<close>

definition ten_moves :: "Move list" where
  "ten_moves = map planned [0, 1, 2, 3, 4, 5, 6, 7, 8, 9]"

lemma recovery_sorted_array_scenario:
  "map_option (hd \<circ> plan_sorted)
      (recoveryPlan ten_moves (planned 4) (Vec3 5 64 0) (Goal 0) 0) = Some (planned 5)
   \<and> indexOf ten_moves (planned 4) = 4
   \<and> indexOf ten_moves (planned 5) = 5
   \<and> map_option (\<lambda>pl. indexOf (plan_sorted pl) (planned 5))
      (recoveryPlan ten_moves (planned 4) (Vec3 5 64 0) (Goal 0) 0) = Some 0
   \<and> map_option plan_no
      (recoveryPlan ten_moves (planned 4) (Vec3 5 64 0) (Goal 0) 0) = Some True
   \<and> map_option plan_newGoal
      (recoveryPlan ten_moves (planned 4) (Vec3 5 64 0) (Goal 0) 0) = Some (Goal 0)"
  by (simp add: recoveryPlan_def ten_moves_def planned_def nth_opt_def indexOf_def Let_def
        distanceTo_def)

end
